theory Spec2Isabelle
  imports Main "HOL-Library.Word"
begin

unbundle bit_operations_syntax

section \<open>The staticx bootloader (\<^verbatim>\<open>bootloader/main.c\<close>)\<close>

text \<open>
  The bootloader maps ELF64 files into memory, reads their tables through pointers
  into the mapping, patches two strings in place, and finally turns the wait status of
  the child into its own way of terminating. The embedding below follows the C text
  function by function. The build modelled is the one without \<^verbatim>\<open>DEBUG\<close>, where
  \<^verbatim>\<open>debug_printf\<close> expands to nothing.
\<close>

subsection \<open>Fatal errors and faults\<close>

text \<open>
  Modelled from the spec: \<^verbatim>\<open>error\<close>, declared in \<^verbatim>\<open>error.h\<close>, is not part of the file. It
  is the fatal-error facility: \<^verbatim>\<open>error(status, errnum, fmt, ...)\<close> formats a message and
  terminates the whole process with the exit status given first. Every call of the
  file passes 2. One constructor of \<open>fatal_msg\<close> stands for each message of the
  functions modelled; \<^verbatim>\<open>set_rpath\<close> uses the message of a missing \<^verbatim>\<open>.dynamic\<close> section for
  a missing \<^verbatim>\<open>.dynstr\<close> section too.

  An access outside the mapped buffer has no defined behaviour in C. The model gives
  it a result of its own, \<open>Fault\<close>, which says that the code makes such an access and
  nothing about what follows it. A missing bounds check shows as a \<open>Fault\<close> where
  a check would give a \<open>Fatal\<close> result.
\<close>

datatype fatal_msg =
    Invalid_ELF_header
  | ELF_disagrees_with_program_header_size
  | ELF_disagrees_with_section_size
  | Failed_to_find_PT_INTERP
  | INTERP_not_NUL_terminated
  | INTERP_too_small
  | Failed_to_find_dynamic
  | No_DT_RPATH_tag
  | RPATH_outside_strtab
  | RPATH_too_small
  | Xz_dec_run_returned

datatype failure = Fatal nat fatal_msg | Fault

subsection \<open>Exit status translation (end of \<^verbatim>\<open>main\<close>)\<close>

text \<open>
  The macros \<^verbatim>\<open>WIFEXITED\<close>, \<^verbatim>\<open>WEXITSTATUS\<close>, \<^verbatim>\<open>WIFSIGNALED\<close> and \<^verbatim>\<open>WTERMSIG\<close> come
  from the system's \<^verbatim>\<open>sys/wait.h\<close>; the model takes them as parameters.
\<close>

record wait_macros =
  WIFEXITED :: "int \<Rightarrow> bool"
  WEXITSTATUS :: "int \<Rightarrow> int"
  WIFSIGNALED :: "int \<Rightarrow> bool"
  WTERMSIG :: "int \<Rightarrow> int"

text \<open>
  What the launcher does after the cleanup, in program order. \<open>Return c\<close> is
  \<^verbatim>\<open>return c\<close> from \<^verbatim>\<open>main\<close> (the process exits with \<open>c\<close>), \<open>Raise s\<close> is
  \<^verbatim>\<open>raise(s)\<close>, \<open>Error_exit n\<close> is \<^verbatim>\<open>error(n, ...)\<close>. The process ends at the first
  action that terminates it: \<open>Return\<close> and \<open>Error_exit\<close> always do, \<open>Raise s\<close> does
  when the disposition of \<open>s\<close> in the launcher is to terminate; the actions after a
  \<open>Raise\<close> are what the code runs if \<^verbatim>\<open>raise\<close> returns.
\<close>

datatype action = Return int | Raise int | Error_exit nat

definition main_exit :: "wait_macros \<Rightarrow> int \<Rightarrow> action list" where
  "main_exit m wstatus =
     (if WIFEXITED m wstatus then [Return (WEXITSTATUS m wstatus)]
      else (if WIFSIGNALED m wstatus then [Raise (WTERMSIG m wstatus)] else [])
           @ [Error_exit 2])"

text \<open>The encoding of wait statuses on Linux (glibc's \<^verbatim>\<open>bits/waitstatus.h\<close>).\<close>

definition linux_wait_macros :: wait_macros where
  "linux_wait_macros =
     \<lparr> WIFEXITED = (\<lambda>s. s AND 0x7f = 0),
       WEXITSTATUS = (\<lambda>s. drop_bit 8 (s AND 0xff00)),
       WIFSIGNALED = (\<lambda>s. sint (signed_drop_bit 1 (word_of_int ((s AND 0x7f) + 1) :: 8 word)) > 0),
       WTERMSIG = (\<lambda>s. s AND 0x7f) \<rparr>"

subsection \<open>The decompression adapter (\<^verbatim>\<open>xz_read\<close>)\<close>

type_synonym byte = "8 word"

text \<open>The results of \<^verbatim>\<open>xz_dec_run\<close>, as \<^verbatim>\<open>xzret_to_str\<close> lists them.\<close>

datatype xz_ret =
    XZ_OK
  | XZ_STREAM_END
  | XZ_UNSUPPORTED_CHECK
  | XZ_MEM_ERROR
  | XZ_MEMLIMIT_ERROR
  | XZ_FORMAT_ERROR
  | XZ_OPTIONS_ERROR
  | XZ_DATA_ERROR
  | XZ_BUF_ERROR

text \<open>
  \<^verbatim>\<open>struct xz_buf\<close>: the compressed input with its cursor, and the output buffer with
  its cursor. The C field \<^verbatim>\<open>in\<close> is \<open>inp\<close> here.
\<close>

record xz_buf =
  inp :: "byte list"
  in_pos :: nat
  in_size :: nat
  out :: "byte list"
  out_pos :: nat
  out_size :: nat

text \<open>
  \<^verbatim>\<open>xz_dec_run\<close> belongs to the decompression library, which is not part of the file.
  The adapter is modelled over any such function: it takes the decoder's state
  (\<^verbatim>\<open>m_xzdec\<close>) and the buffer descriptor (\<^verbatim>\<open>m_xzbuf\<close>) and returns its result with both
  updated.
\<close>

type_synonym 'd xz_run = "'d \<Rightarrow> xz_buf \<Rightarrow> xz_ret \<times> 'd \<times> xz_buf"

text \<open>
  The loop of \<^verbatim>\<open>xz_read\<close>. It runs for as long as the decoder answers \<^verbatim>\<open>XZ_OK\<close> and
  the buffer is not full, so for a decoder that never fills the buffer and never ends
  it does not return: the value is then \<open>None\<close>. The result is \<open>Inr n\<close> for
  \<^verbatim>\<open>return n\<close> and \<open>Inl (Fatal 2 _)\<close> for \<^verbatim>\<open>error(2, ...)\<close>, after which the \<^verbatim>\<open>return -1\<close>
  of the source is never reached.
\<close>

partial_function (option) xz_read_loop ::
  "'d xz_run \<Rightarrow> nat \<Rightarrow> 'd \<Rightarrow> xz_buf \<Rightarrow> ((failure + int) \<times> 'd \<times> xz_buf) option" where
  "xz_read_loop run len d b =
     (if out_pos b \<noteq> out_size b then
        (case run d b of (xr, d', b') \<Rightarrow>
           (case xr of
              XZ_OK \<Rightarrow> xz_read_loop run len d' b'
            | XZ_STREAM_END \<Rightarrow> Some (Inr 0, d', b')
            | _ \<Rightarrow> Some (Inl (Fatal 2 Xz_dec_run_returned), d', b')))
      else Some (Inr (int len), d, b))"

declare xz_read_loop.simps [code]

text \<open>
  \<^verbatim>\<open>xz_read(fd, buf, len)\<close>; \<^verbatim>\<open>fd\<close> is not used by the source. \<open>buf\<close> is the caller's
  buffer as it is before the call. A buffer that exists has at most \<^verbatim>\<open>SSIZE_MAX\<close>
  bytes, so the conversion of \<^verbatim>\<open>len\<close> to \<^verbatim>\<open>ssize_t\<close> keeps its value.
\<close>

definition xz_read ::
  "'d xz_run \<Rightarrow> 'd \<Rightarrow> xz_buf \<Rightarrow> byte list \<Rightarrow> nat \<Rightarrow> ((failure + int) \<times> 'd \<times> xz_buf) option" where
  "xz_read run d b buf len =
     xz_read_loop run len d (b\<lparr>out := buf, out_pos := 0, out_size := len\<rparr>)"

text \<open>
  A caller that pulls with the request sizes of a list, one call after the other,
  and keeps what each call reports: the first \<open>k\<close> bytes of its buffer when the call
  returns \<open>k > 0\<close>. It stops at the first call that returns 0, which the caller reads
  as end of file; the flag says whether that happened.
\<close>

fun pull :: "'d xz_run \<Rightarrow> 'd \<Rightarrow> xz_buf \<Rightarrow> nat list \<Rightarrow> (failure + byte list \<times> bool) option" where
  "pull run d b [] = Some (Inr ([], False))"
| "pull run d b (n # ns) =
     (case xz_read run d b (replicate n 0) n of
        None \<Rightarrow> None
      | Some (Inl e, d', b') \<Rightarrow> Some (Inl e)
      | Some (Inr k, d', b') \<Rightarrow>
          if k \<le> 0 then Some (Inr ([], True))
          else (case pull run d' b' ns of
                  None \<Rightarrow> None
                | Some (Inl e) \<Rightarrow> Some (Inl e)
                | Some (Inr (ys, eof)) \<Rightarrow> Some (Inr (take (nat k) (out b') @ ys, eof))))"

text \<open>
  Decompressing the whole stream in one call of the decoder, into a buffer of \<open>n\<close>
  bytes: the bytes it has written when it reports the end of the stream.
\<close>

definition xz_single :: "'d xz_run \<Rightarrow> 'd \<Rightarrow> xz_buf \<Rightarrow> nat \<Rightarrow> byte list option" where
  "xz_single run d b n =
     (case run d (b\<lparr>out := replicate n 0, out_pos := 0, out_size := n\<rparr>) of
        (XZ_STREAM_END, d', b') \<Rightarrow> Some (take (out_pos b') (out b'))
      | _ \<Rightarrow> None)"

text \<open>
  What the interface of \<^verbatim>\<open>xz_dec_run\<close> promises, as far as the results below need it.
  \<open>streaming run pend\<close>: the decoder writes only at the output cursor, inside the
  buffer, and \<open>pend d b\<close>, the part of the decompressed stream it has not written
  yet, depends on the decoder's state and the input only; each call writes a prefix
  of it, all of it when the call reports the end of the stream.
  \<open>progress run mu\<close>: a call that answers \<^verbatim>\<open>XZ_OK\<close> lowers the measure \<open>mu\<close>.
\<close>

definition streaming :: "'d xz_run \<Rightarrow> ('d \<Rightarrow> xz_buf \<Rightarrow> byte list) \<Rightarrow> bool" where
  "streaming run pend \<longleftrightarrow>
     (\<forall>d b bf p s. pend d (b\<lparr>out := bf, out_pos := p, out_size := s\<rparr>) = pend d b) \<and>
     (\<forall>d b r d' b'.
        run d b = (r, d', b') \<and> out_pos b \<le> out_size b \<and> out_size b \<le> length (out b) \<longrightarrow>
          out_size b' = out_size b \<and> length (out b') = length (out b) \<and>
          out_pos b \<le> out_pos b' \<and> out_pos b' \<le> out_size b \<and>
          take (out_pos b) (out b') = take (out_pos b) (out b) \<and>
          (r = XZ_OK \<longrightarrow>
             pend d b = take (out_pos b' - out_pos b) (drop (out_pos b) (out b')) @ pend d' b') \<and>
          (r = XZ_STREAM_END \<longrightarrow>
             pend d b = take (out_pos b' - out_pos b) (drop (out_pos b) (out b'))))"

definition progress :: "'d xz_run \<Rightarrow> ('d \<Rightarrow> xz_buf \<Rightarrow> nat) \<Rightarrow> bool" where
  "progress run mu \<longleftrightarrow>
     (\<forall>d b d' b'. out_pos b \<noteq> out_size b \<and> run d b = (XZ_OK, d', b') \<longrightarrow> mu d' b' < mu d b)"

text \<open>
  A decoder for the format in which the compressed bytes are the data themselves. Each
  call copies as many of the remaining input bytes as the output buffer has room for,
  and reports the end of the stream once the input is used up; a call that can copy
  nothing is a \<^verbatim>\<open>XZ_BUF_ERROR\<close>.
\<close>

definition stored_pend :: "unit \<Rightarrow> xz_buf \<Rightarrow> byte list" where
  "stored_pend d b = take (in_size b - in_pos b) (drop (in_pos b) (inp b))"

definition stored_run :: "unit xz_run" where
  "stored_run d b =
     (let avail = stored_pend d b;
          e = take (out_size b - out_pos b) avail;
          b' = b\<lparr>out := take (out_pos b) (out b) @ e @ drop (out_pos b + length e) (out b),
                 out_pos := out_pos b + length e,
                 in_pos := in_pos b + length e\<rparr>
      in (if length e = length avail then XZ_STREAM_END
          else if e = [] then XZ_BUF_ERROR else XZ_OK, d, b'))"

definition stored_buf :: "byte list \<Rightarrow> xz_buf" where
  "stored_buf xs = \<lparr>inp = xs, in_pos = 0, in_size = length xs, out = [], out_pos = 0, out_size = 0\<rparr>"


subsection \<open>The mapped file\<close>

text \<open>
  \<^verbatim>\<open>mmap_file\<close> gives the file as a buffer of bytes. A pointer into it is modelled by its
  offset from the start of the mapping, a 64-bit value as \<^verbatim>\<open>size_t\<close> is; the header
  \<^verbatim>\<open>ehdr\<close> is at offset 0. A load or store is inside the buffer when all its bytes are;
  anything else is a \<open>Fault\<close>.
\<close>

type_synonym mem = "byte list"
type_synonym addr = "64 word"

definition ptr_add :: "addr \<Rightarrow> 64 word \<Rightarrow> addr" where
  "ptr_add p off = p + off"

definition ehdr :: addr where
  "ehdr = 0"

definition load_bytes :: "mem \<Rightarrow> addr \<Rightarrow> nat \<Rightarrow> failure + byte list" where
  "load_bytes m a n =
     (if unat a + n \<le> length m then Inr (take n (drop (unat a) m)) else Inl Fault)"

text \<open>The value of a little-endian field.\<close>

fun le_val :: "byte list \<Rightarrow> nat" where
  "le_val [] = 0"
| "le_val (b # bs) = unat b + 256 * le_val bs"

definition load8 :: "mem \<Rightarrow> addr \<Rightarrow> failure + byte" where
  "load8 m a = (if unat a < length m then Inr (m ! unat a) else Inl Fault)"

definition load16 :: "mem \<Rightarrow> addr \<Rightarrow> failure + 16 word" where
  "load16 m a = (case load_bytes m a 2 of Inl e \<Rightarrow> Inl e | Inr bs \<Rightarrow> Inr (of_nat (le_val bs)))"

definition load32 :: "mem \<Rightarrow> addr \<Rightarrow> failure + 32 word" where
  "load32 m a = (case load_bytes m a 4 of Inl e \<Rightarrow> Inl e | Inr bs \<Rightarrow> Inr (of_nat (le_val bs)))"

definition load64 :: "mem \<Rightarrow> addr \<Rightarrow> failure + 64 word" where
  "load64 m a = (case load_bytes m a 8 of Inl e \<Rightarrow> Inl e | Inr bs \<Rightarrow> Inr (of_nat (le_val bs)))"

definition store_bytes :: "mem \<Rightarrow> addr \<Rightarrow> byte list \<Rightarrow> failure + mem" where
  "store_bytes m a bs =
     (if unat a + length bs \<le> length m
      then Inr (take (unat a) m @ bs @ drop (unat a + length bs) m)
      else Inl Fault)"

text \<open>
  The string functions of the C library, on a string in the buffer. A string given
  by the caller (\<^verbatim>\<open>new_interp\<close>, \<^verbatim>\<open>new_rpath\<close>, a section name) is the list of its bytes before
  the terminator, none of which is 0. \<^verbatim>\<open>strlen\<close> and \<^verbatim>\<open>strcmp\<close> read the buffer up to
  the terminator, and fault when there is none before the end of the buffer.
\<close>

fun strlen_bytes :: "byte list \<Rightarrow> failure + nat" where
  "strlen_bytes [] = Inl Fault"
| "strlen_bytes (b # bs) =
     (if b = 0 then Inr 0
      else case strlen_bytes bs of Inl e \<Rightarrow> Inl e | Inr n \<Rightarrow> Inr (Suc n))"

definition strlen :: "mem \<Rightarrow> addr \<Rightarrow> failure + nat" where
  "strlen m a = strlen_bytes (drop (unat a) m)"

text \<open>\<open>streq_bytes bs name\<close> is \<^verbatim>\<open>strcmp(s, name) == 0\<close> for the string \<open>s\<close> at the head of \<open>bs\<close>.\<close>

fun streq_bytes :: "byte list \<Rightarrow> byte list \<Rightarrow> failure + bool" where
  "streq_bytes [] name = Inl Fault"
| "streq_bytes (b # bs) [] = Inr (b = 0)"
| "streq_bytes (b # bs) (c # cs) = (if b = c then streq_bytes bs cs else Inr False)"

definition streq :: "mem \<Rightarrow> addr \<Rightarrow> byte list \<Rightarrow> failure + bool" where
  "streq m a name = streq_bytes (drop (unat a) m) name"

text \<open>\<^verbatim>\<open>strcpy(dst, src)\<close> writes the bytes of \<open>src\<close> and the terminator.\<close>

definition strcpy :: "mem \<Rightarrow> addr \<Rightarrow> byte list \<Rightarrow> failure + mem" where
  "strcpy m dst src = store_bytes m dst (src @ [0])"

subsection \<open>The ELF64 structures\<close>

text \<open>
  The fields the code reads, at their offsets in \<^verbatim>\<open>Elf64_Ehdr\<close>, \<^verbatim>\<open>Elf64_Phdr\<close>,
  \<^verbatim>\<open>Elf64_Shdr\<close> and \<^verbatim>\<open>Elf64_Dyn\<close> of the system's \<^verbatim>\<open>elf.h\<close>, and its constants.
\<close>

definition e_phoff :: "mem \<Rightarrow> failure + 64 word" where "e_phoff m = load64 m (ehdr + 32)"
definition e_shoff :: "mem \<Rightarrow> failure + 64 word" where "e_shoff m = load64 m (ehdr + 40)"
definition e_phentsize :: "mem \<Rightarrow> failure + 16 word" where "e_phentsize m = load16 m (ehdr + 54)"
definition e_phnum :: "mem \<Rightarrow> failure + 16 word" where "e_phnum m = load16 m (ehdr + 56)"
definition e_shentsize :: "mem \<Rightarrow> failure + 16 word" where "e_shentsize m = load16 m (ehdr + 58)"
definition e_shnum :: "mem \<Rightarrow> failure + 16 word" where "e_shnum m = load16 m (ehdr + 60)"
definition e_shstrndx :: "mem \<Rightarrow> failure + 16 word" where "e_shstrndx m = load16 m (ehdr + 62)"

definition sizeof_Phdr :: nat where "sizeof_Phdr = 56"
definition p_type :: "mem \<Rightarrow> addr \<Rightarrow> failure + 32 word" where "p_type m ph = load32 m ph"
definition p_offset :: "mem \<Rightarrow> addr \<Rightarrow> failure + 64 word" where "p_offset m ph = load64 m (ph + 8)"
definition p_filesz :: "mem \<Rightarrow> addr \<Rightarrow> failure + 64 word" where "p_filesz m ph = load64 m (ph + 32)"

definition sizeof_Shdr :: nat where "sizeof_Shdr = 64"
definition sh_name :: "mem \<Rightarrow> addr \<Rightarrow> failure + 32 word" where "sh_name m sh = load32 m sh"
definition sh_type :: "mem \<Rightarrow> addr \<Rightarrow> failure + 32 word" where "sh_type m sh = load32 m (sh + 4)"
definition sh_offset :: "mem \<Rightarrow> addr \<Rightarrow> failure + 64 word" where "sh_offset m sh = load64 m (sh + 24)"
definition sh_size :: "mem \<Rightarrow> addr \<Rightarrow> failure + 64 word" where "sh_size m sh = load64 m (sh + 32)"

definition sizeof_Dyn :: nat where "sizeof_Dyn = 16"
definition d_tag :: "mem \<Rightarrow> addr \<Rightarrow> failure + 64 word" where "d_tag m dt = load64 m dt"
definition d_val :: "mem \<Rightarrow> addr \<Rightarrow> failure + 64 word" where "d_val m dt = load64 m (dt + 8)"

definition PT_INTERP :: "32 word" where "PT_INTERP = 3"
definition DT_NULL :: "64 word" where "DT_NULL = 0"
definition DT_RPATH :: "64 word" where "DT_RPATH = 15"
definition SHT_HIUSER :: "32 word" where "SHT_HIUSER = 0x8fffffff"
definition SHT_NOT_USED :: "32 word" where "SHT_NOT_USED = SHT_HIUSER + 1"

subsection \<open>\<^verbatim>\<open>elf_is_valid\<close>\<close>

definition elf_is_valid :: "mem \<Rightarrow> failure + bool" where
  "elf_is_valid m =
     (case load8 m (ehdr + 0) of Inl e \<Rightarrow> Inl e | Inr c0 \<Rightarrow>
      if c0 \<noteq> 0x7f then Inr False else
      case load8 m (ehdr + 1) of Inl e \<Rightarrow> Inl e | Inr c1 \<Rightarrow>
      if c1 \<noteq> 0x45 then Inr False else
      case load8 m (ehdr + 2) of Inl e \<Rightarrow> Inl e | Inr c2 \<Rightarrow>
      if c2 \<noteq> 0x4c then Inr False else
      case load8 m (ehdr + 3) of Inl e \<Rightarrow> Inl e | Inr c3 \<Rightarrow>
      Inr (c3 = 0x46))"

subsection \<open>\<^verbatim>\<open>elf_get_proghdr_by_type\<close>\<close>

text \<open>The loop over the program header table; \<open>i\<close> is the loop counter.\<close>

function phdr_loop :: "mem \<Rightarrow> addr \<Rightarrow> 32 word \<Rightarrow> nat \<Rightarrow> nat \<Rightarrow> failure + addr option" where
  "phdr_loop m phdr_table ptype phnum i =
     (if i < phnum then
        (let ph = ptr_add phdr_table (of_nat (i * sizeof_Phdr)) in
         case p_type m ph of Inl e \<Rightarrow> Inl e | Inr t \<Rightarrow>
         if t = ptype then Inr (Some ph)
         else phdr_loop m phdr_table ptype phnum (Suc i))
      else Inr None)"
  by pat_completeness auto
termination
  by (relation "measure (\<lambda>(m, phdr_table, ptype, phnum, i). phnum - i)") auto

declare phdr_loop.simps [simp del]

definition elf_get_proghdr_by_type :: "mem \<Rightarrow> 32 word \<Rightarrow> failure + addr option" where
  "elf_get_proghdr_by_type m ptype =
     (case e_phoff m of Inl e \<Rightarrow> Inl e | Inr phoff \<Rightarrow>
      let phdr_table = ptr_add ehdr phoff in
      case e_phentsize m of Inl e \<Rightarrow> Inl e | Inr phentsize \<Rightarrow>
      if unat phentsize \<noteq> sizeof_Phdr
      then Inl (Fatal 2 ELF_disagrees_with_program_header_size) else
      case e_phnum m of Inl e \<Rightarrow> Inl e | Inr phnum \<Rightarrow>
      phdr_loop m phdr_table ptype (unat phnum) 0)"

subsection \<open>\<^verbatim>\<open>elf_get_section\<close>\<close>

text \<open>
  The loop over the section header table. \<open>lookup_name\<close> is \<open>None\<close> for a null
  pointer.
\<close>

function shdr_loop ::
  "mem \<Rightarrow> addr \<Rightarrow> addr \<Rightarrow> byte list option \<Rightarrow> 32 word \<Rightarrow> nat \<Rightarrow> nat \<Rightarrow> failure + addr option" where
  "shdr_loop m shdr_table strtab lookup_name lookup_type shnum i =
     (if i < shnum then
        (let sh = ptr_add shdr_table (of_nat (i * sizeof_Shdr)) in
         case sh_name m sh of Inl e \<Rightarrow> Inl e | Inr name_off \<Rightarrow>
         let sh_name_ptr = ptr_add strtab (ucast name_off) in
         case (case lookup_name of
                 None \<Rightarrow> Inr False
               | Some name \<Rightarrow> streq m sh_name_ptr name) of
           Inl e \<Rightarrow> Inl e
         | Inr True \<Rightarrow> Inr (Some sh)
         | Inr False \<Rightarrow>
             (case (if lookup_type \<noteq> SHT_NOT_USED
                    then (case sh_type m sh of Inl e \<Rightarrow> Inl e | Inr t \<Rightarrow> Inr (t = lookup_type))
                    else Inr False) of
                Inl e \<Rightarrow> Inl e
              | Inr True \<Rightarrow> Inr (Some sh)
              | Inr False \<Rightarrow>
                  shdr_loop m shdr_table strtab lookup_name lookup_type shnum (Suc i)))
      else Inr None)"
  by pat_completeness auto
termination
  by (relation "measure (\<lambda>(m, shdr_table, strtab, lookup_name, lookup_type, shnum, i). shnum - i)")
    auto

declare shdr_loop.simps [simp del]

definition elf_get_section :: "mem \<Rightarrow> byte list option \<Rightarrow> 32 word \<Rightarrow> failure + addr option" where
  "elf_get_section m lookup_name lookup_type =
     (case e_shoff m of Inl e \<Rightarrow> Inl e | Inr shoff \<Rightarrow>
      let shdr_table = ptr_add ehdr shoff in
      case e_shstrndx m of Inl e \<Rightarrow> Inl e | Inr shstrndx \<Rightarrow>
      let sh_strtab = ptr_add shdr_table (of_nat (unat shstrndx * sizeof_Shdr)) in
      case sh_offset m sh_strtab of Inl e \<Rightarrow> Inl e | Inr strtab_off \<Rightarrow>
      let strtab = ptr_add ehdr strtab_off in
      case e_shentsize m of Inl e \<Rightarrow> Inl e | Inr shentsize \<Rightarrow>
      if unat shentsize \<noteq> sizeof_Shdr
      then Inl (Fatal 2 ELF_disagrees_with_section_size) else
      case e_shnum m of Inl e \<Rightarrow> Inl e | Inr shnum \<Rightarrow>
      shdr_loop m shdr_table strtab lookup_name lookup_type (unat shnum) 0)"

definition elf_get_section_by_name :: "mem \<Rightarrow> byte list \<Rightarrow> failure + addr option" where
  "elf_get_section_by_name m lookup_name = elf_get_section m (Some lookup_name) SHT_NOT_USED"

subsection \<open>\<^verbatim>\<open>set_interp\<close>\<close>

text \<open>
  A patch operation ends with the buffer patched, or it fails. \<open>Failed (Fatal n msg) m\<close>
  is the process terminated by \<^verbatim>\<open>error\<close> with \<open>m\<close> in the mapping. \<open>Failed Fault m\<close> is a
  faulting access, with \<open>m\<close> the buffer before it.
\<close>

datatype patch_result = Patched mem | Failed failure mem

definition set_interp :: "mem \<Rightarrow> byte list \<Rightarrow> patch_result" where
  "set_interp m new_interp =
     (case elf_get_proghdr_by_type m PT_INTERP of
        Inl e \<Rightarrow> Failed e m
      | Inr None \<Rightarrow> Failed (Fatal 2 Failed_to_find_PT_INTERP) m
      | Inr (Some ph) \<Rightarrow>
          (case p_offset m ph of Inl e \<Rightarrow> Failed e m | Inr off \<Rightarrow>
           let interp = ptr_add ehdr off in
           case p_filesz m ph of Inl e \<Rightarrow> Failed e m | Inr interp_size \<Rightarrow>
           case load8 m (ptr_add interp (interp_size - 1)) of Inl e \<Rightarrow> Failed e m | Inr c \<Rightarrow>
           if c \<noteq> 0 then Failed (Fatal 2 INTERP_not_NUL_terminated) m else
           if length new_interp > unat (interp_size - 1) then Failed (Fatal 2 INTERP_too_small) m else
           case strcpy m interp new_interp of Inl e \<Rightarrow> Failed e m | Inr m' \<Rightarrow> Patched m'))"

subsection \<open>\<^verbatim>\<open>set_rpath\<close>\<close>

text \<open>
  The walk of the dynamic table. The result is the loop counter and \<^verbatim>\<open>dt_rpath\<close> at
  the label \<^verbatim>\<open>dyn_done\<close>.
\<close>

function dyn_loop :: "mem \<Rightarrow> addr \<Rightarrow> nat \<Rightarrow> nat \<Rightarrow> addr option \<Rightarrow> failure + nat \<times> addr option" where
  "dyn_loop m dyn_table ndyn i dt_rpath =
     (if i < ndyn then
        (let dt = ptr_add dyn_table (of_nat (i * sizeof_Dyn)) in
         case d_tag m dt of Inl e \<Rightarrow> Inl e | Inr tag \<Rightarrow>
         if tag = DT_NULL then Inr (i, dt_rpath)
         else if tag = DT_RPATH then dyn_loop m dyn_table ndyn (Suc i) (Some dt)
         else dyn_loop m dyn_table ndyn (Suc i) dt_rpath)
      else Inr (i, dt_rpath))"
  by pat_completeness auto
termination
  by (relation "measure (\<lambda>(m, dyn_table, ndyn, i, dt_rpath). ndyn - i)") auto

declare dyn_loop.simps [simp del]

definition dot_dynamic :: "byte list" where
  "dot_dynamic = map of_char ''.dynamic''"

definition dot_dynstr :: "byte list" where
  "dot_dynstr = map of_char ''.dynstr''"

definition set_rpath :: "mem \<Rightarrow> byte list \<Rightarrow> patch_result" where
  "set_rpath m new_rpath =
     (case elf_get_section_by_name m dot_dynamic of
        Inl e \<Rightarrow> Failed e m
      | Inr None \<Rightarrow> Failed (Fatal 2 Failed_to_find_dynamic) m
      | Inr (Some dyn_sh) \<Rightarrow>
          (case sh_offset m dyn_sh of Inl e \<Rightarrow> Failed e m | Inr dyn_off \<Rightarrow>
           let dyn_table = ptr_add ehdr dyn_off in
           case sh_size m dyn_sh of Inl e \<Rightarrow> Failed e m | Inr dyn_size \<Rightarrow>
           let ndyn = unat dyn_size div sizeof_Dyn in
           case elf_get_section_by_name m dot_dynstr of
             Inl e \<Rightarrow> Failed e m
           | Inr None \<Rightarrow> Failed (Fatal 2 Failed_to_find_dynamic) m
           | Inr (Some dynstr_sh) \<Rightarrow>
               (case sh_offset m dynstr_sh of Inl e \<Rightarrow> Failed e m | Inr dynstr_off \<Rightarrow>
                let dynstrtab = ptr_add ehdr dynstr_off in
                case sh_size m dynstr_sh of Inl e \<Rightarrow> Failed e m | Inr dynstrsz \<Rightarrow>
                case dyn_loop m dyn_table ndyn 0 None of
                  Inl e \<Rightarrow> Failed e m
                | Inr (i, None) \<Rightarrow> Failed (Fatal 2 No_DT_RPATH_tag) m
                | Inr (i, Some dt_rpath) \<Rightarrow>
                    (case d_val m dt_rpath of Inl e \<Rightarrow> Failed e m | Inr v \<Rightarrow>
                     if v > dynstrsz then Failed (Fatal 2 RPATH_outside_strtab) m else
                     let rpath = ptr_add dynstrtab v in
                     case strlen m rpath of Inl e \<Rightarrow> Failed e m | Inr n \<Rightarrow>
                     if length new_rpath > n then Failed (Fatal 2 RPATH_too_small) m else
                     case strcpy m rpath new_rpath of
                       Inl e \<Rightarrow> Failed e m
                     | Inr m' \<Rightarrow> Patched m'))))"

subsection \<open>\<^verbatim>\<open>patch_prog_paths\<close>\<close>

text \<open>The buffer is the writable mapping of the target; what is in it at the end is the file.\<close>

definition patch_prog_paths :: "mem \<Rightarrow> byte list \<Rightarrow> byte list \<Rightarrow> patch_result" where
  "patch_prog_paths m new_interp new_rpath =
     (case elf_is_valid m of
        Inl e \<Rightarrow> Failed e m
      | Inr False \<Rightarrow> Failed (Fatal 2 Invalid_ELF_header) m
      | Inr True \<Rightarrow>
          (case set_interp m new_interp of
             Failed e m' \<Rightarrow> Failed e m'
           | Patched m' \<Rightarrow> set_rpath m' new_rpath))"


subsection \<open>Sample images\<close>

text \<open>
  Images for the concrete results below, laid out as a linker would: the ELF header,
  one program header (\<^verbatim>\<open>PT_INTERP\<close>), the interpreter field, the section name table, the
  dynamic string table, four section headers (the null section, \<^verbatim>\<open>.dynamic\<close>, \<^verbatim>\<open>.dynstr\<close>,
  \<^verbatim>\<open>.shstrtab\<close>) and the dynamic table. The parameters are the size and the bytes of the
  interpreter field, the bytes at the place of the dynamic string table and the size
  its section header gives, and the entries of the dynamic table.
\<close>

fun le :: "nat \<Rightarrow> nat \<Rightarrow> byte list" where
  "le 0 v = []"
| "le (Suc n) v = of_nat (v mod 256) # le n (v div 256)"

definition pad :: "nat \<Rightarrow> byte list \<Rightarrow> byte list" where
  "pad n bs = take n (bs @ replicate n 0)"

definition mk_ehdr :: "nat \<Rightarrow> nat \<Rightarrow> nat \<Rightarrow> nat \<Rightarrow> nat \<Rightarrow> nat \<Rightarrow> nat \<Rightarrow> byte list" where
  "mk_ehdr phoff shoff phentsize phnum shentsize shnum shstrndx =
     [0x7f, 0x45, 0x4c, 0x46, 2, 1, 1, 0] @ replicate 8 0 @
     le 2 2 @ le 2 62 @ le 4 1 @ le 8 0 @ le 8 phoff @ le 8 shoff @ le 4 0 @ le 2 64 @
     le 2 phentsize @ le 2 phnum @ le 2 shentsize @ le 2 shnum @ le 2 shstrndx"

definition mk_phdr :: "nat \<Rightarrow> nat \<Rightarrow> nat \<Rightarrow> byte list" where
  "mk_phdr ptype off filesz =
     le 4 ptype @ le 4 4 @ le 8 off @ le 8 off @ le 8 off @ le 8 filesz @ le 8 filesz @ le 8 1"

definition mk_shdr :: "nat \<Rightarrow> nat \<Rightarrow> nat \<Rightarrow> nat \<Rightarrow> byte list" where
  "mk_shdr name ty off sz =
     le 4 name @ le 4 ty @ le 8 0 @ le 8 0 @ le 8 off @ le 8 sz @ le 4 0 @ le 4 0 @ le 8 1 @ le 8 0"

definition mk_dyn :: "nat \<times> nat \<Rightarrow> byte list" where
  "mk_dyn tv = le 8 (fst tv) @ le 8 (snd tv)"

definition shstrtab :: "byte list" where
  "shstrtab = 0 # map of_char ''.dynamic'' @ 0 # map of_char ''.dynstr'' @
              0 # map of_char ''.shstrtab'' @ [0]"

definition sample_target ::
  "nat \<Rightarrow> byte list \<Rightarrow> byte list \<Rightarrow> nat \<Rightarrow> (nat \<times> nat) list \<Rightarrow> mem" where
  "sample_target interp_filesz interp_field dynstr dynstr_size dyn =
     mk_ehdr 64 192 56 1 64 4 3 @
     mk_phdr 3 120 interp_filesz @
     pad 16 interp_field @
     pad 32 shstrtab @
     pad 24 dynstr @
     mk_shdr 0 0 0 0 @
     mk_shdr 1 6 448 (16 * length dyn) @
     mk_shdr 10 3 168 dynstr_size @
     mk_shdr 18 3 136 (length shstrtab) @
     concat (map mk_dyn dyn)"

text \<open>
  The target as the archive's producer builds it: an interpreter field of 8 bytes,
  and in the dynamic string table, of 15 bytes, a placeholder of 8 bytes for the
  library search path at offset 6.
\<close>

definition target_interp :: "byte list" where
  "target_interp = map of_char ''/lib/ld'' @ [0]"

definition target_dynstr :: "byte list" where
  "target_dynstr = 0 # map of_char ''libc'' @ 0 # map of_char ''XXXXXXXX'' @ [0]"

definition target_img :: mem where
  "target_img = sample_target 8 target_interp target_dynstr 15 [(1, 1), (15, 6), (0, 0)]"

text \<open>The target after \<^verbatim>\<open>set_interp\<close> has written the string \<^verbatim>\<open>/t/i\<close>.\<close>

definition target_img_interp_set :: mem where
  "target_img_interp_set =
     sample_target 8 (map of_char ''/t/i'' @ 0 # map of_char ''ld'' @ [0]) target_dynstr 15
       [(1, 1), (15, 6), (0, 0)]"

text \<open>The same image with a \<^verbatim>\<open>PT_INTERP\<close> segment of size 0.\<close>

definition empty_interp_img :: mem where
  "empty_interp_img = sample_target 0 target_interp target_dynstr 15 [(1, 1), (15, 6), (0, 0)]"

text \<open>
  A dynamic table with two \<^verbatim>\<open>DT_RPATH\<close> entries before the terminating \<^verbatim>\<open>DT_NULL\<close> and one
  after it.
\<close>

definition two_rpath_img :: mem where
  "two_rpath_img =
     sample_target 8 target_interp target_dynstr 15 [(1, 1), (15, 6), (15, 1), (0, 0), (15, 11)]"

text \<open>
  An image whose \<^verbatim>\<open>.dynstr\<close> section has 6 bytes only, so that the value 6 of its
  \<^verbatim>\<open>DT_RPATH\<close> entry is the offset of the first byte after the table; and what
  \<^verbatim>\<open>set_rpath\<close> makes of it with the string \<^verbatim>\<open>/t\<close>.
\<close>

definition short_dynstr_img :: mem where
  "short_dynstr_img = sample_target 8 target_interp target_dynstr 6 [(1, 1), (15, 6), (0, 0)]"

definition short_dynstr_img_patched :: mem where
  "short_dynstr_img_patched =
     sample_target 8 target_interp
       (0 # map of_char ''libc'' @ 0 # map of_char ''/t'' @ 0 # map of_char ''XXXXX'' @ [0]) 6
       [(1, 1), (15, 6), (0, 0)]"

text \<open>
  A file that is an ELF header and nothing else, whose table offsets point far
  behind its end.
\<close>

definition header_only_img :: mem where
  "header_only_img = mk_ehdr 4096 4096 56 1 64 1 0"

subsection \<open>What a failed patch leaves\<close>

text \<open>\<open>keeps m r\<close>: if \<open>r\<close> is a failure, the buffer it gives is \<open>m\<close>.\<close>

definition keeps :: "mem \<Rightarrow> patch_result \<Rightarrow> bool" where
  "keeps m r = (case r of Failed e m' \<Rightarrow> m' = m | Patched m' \<Rightarrow> True)"

text \<open>The address of entry \<open>j\<close> of the dynamic table at \<open>tab\<close>.\<close>

abbreviation (input) ent :: "addr \<Rightarrow> nat \<Rightarrow> addr" where
  "ent tab j \<equiv> ptr_add tab (of_nat (j * sizeof_Dyn))"

section \<open>Exit status translation: results\<close>

text \<open>
  C3. If the child exited normally, \<^verbatim>\<open>main\<close> returns the child's exit code. If it was
  terminated by a signal, the launcher raises that signal against itself, and only
  if \<^verbatim>\<open>raise\<close> returns does it go on to the fatal error with status 2. Any other wait
  status is the fatal error with status 2.
\<close>

theorem main_exit_cases:
  "(WIFEXITED m w \<longrightarrow> main_exit m w = [Return (WEXITSTATUS m w)]) \<and>
   (\<not> WIFEXITED m w \<and> WIFSIGNALED m w \<longrightarrow>
      main_exit m w = [Raise (WTERMSIG m w), Error_exit 2]) \<and>
   (\<not> WIFEXITED m w \<and> \<not> WIFSIGNALED m w \<longrightarrow> main_exit m w = [Error_exit 2])"
  by (simp add: main_exit_def)

theorem main_exit_cases_witness:
  "main_exit linux_wait_macros 0x2a00 = [Return 42] \<and>
   main_exit linux_wait_macros 9 = [Raise 9, Error_exit 2] \<and>
   main_exit linux_wait_macros 0x137f = [Error_exit 2]"
  using main_exit_cases [of linux_wait_macros "0x2a00"]
        main_exit_cases [of linux_wait_macros 9]
        main_exit_cases [of linux_wait_macros "0x137f"]
  by (simp add: linux_wait_macros_def)

section \<open>The decompression adapter: results\<close>

subsection \<open>The loop\<close>

lemma xz_read_loop_result:
  assumes "xz_read_loop run len d b = Some y"
  shows "(case y of (r, d', b') \<Rightarrow>
         (r = Inr (int len) \<and> out_pos b' = out_size b') \<or>
         (r = Inr 0 \<and> (\<exists>d0 b0. out_pos b0 \<noteq> out_size b0 \<and> run d0 b0 = (XZ_STREAM_END, d', b'))) \<or>
         (r = Inl (Fatal 2 Xz_dec_run_returned) \<and>
            (\<exists>d0 b0 x. out_pos b0 \<noteq> out_size b0 \<and> run d0 b0 = (x, d', b') \<and>
               x \<noteq> XZ_OK \<and> x \<noteq> XZ_STREAM_END)))"
proof (rule xz_read_loop.raw_induct [where P = "\<lambda>run len d b y. (case y of (r, d', b') \<Rightarrow>
         (r = Inr (int len) \<and> out_pos b' = out_size b') \<or>
         (r = Inr 0 \<and> (\<exists>d0 b0. out_pos b0 \<noteq> out_size b0 \<and> run d0 b0 = (XZ_STREAM_END, d', b'))) \<or>
         (r = Inl (Fatal 2 Xz_dec_run_returned) \<and>
            (\<exists>d0 b0 x. out_pos b0 \<noteq> out_size b0 \<and> run d0 b0 = (x, d', b') \<and>
               x \<noteq> XZ_OK \<and> x \<noteq> XZ_STREAM_END)))", OF _ assms])
  fix loop :: "'a xz_run \<Rightarrow> nat \<Rightarrow> 'a \<Rightarrow> xz_buf \<Rightarrow> ((failure + int) \<times> 'a \<times> xz_buf) option"
  fix run len d b y
  assume 1: "\<And>run len d b y. loop run len d b = Some y \<Longrightarrow> (case y of (r, d', b') \<Rightarrow>
         (r = Inr (int len) \<and> out_pos b' = out_size b') \<or>
         (r = Inr 0 \<and> (\<exists>d0 b0. out_pos b0 \<noteq> out_size b0 \<and> run d0 b0 = (XZ_STREAM_END, d', b'))) \<or>
         (r = Inl (Fatal 2 Xz_dec_run_returned) \<and>
            (\<exists>d0 b0 x. out_pos b0 \<noteq> out_size b0 \<and> run d0 b0 = (x, d', b') \<and>
               x \<noteq> XZ_OK \<and> x \<noteq> XZ_STREAM_END)))"
    "(if out_pos b \<noteq> out_size b then
        (case run d b of (xr, d', b') \<Rightarrow>
           (case xr of
              XZ_OK \<Rightarrow> loop run len d' b'
            | XZ_STREAM_END \<Rightarrow> Some (Inr 0, d', b')
            | _ \<Rightarrow> Some (Inl (Fatal 2 Xz_dec_run_returned), d', b')))
      else Some (Inr (int len), d, b)) = Some y"
  show "(case y of (r, d', b') \<Rightarrow>
         (r = Inr (int len) \<and> out_pos b' = out_size b') \<or>
         (r = Inr 0 \<and> (\<exists>d0 b0. out_pos b0 \<noteq> out_size b0 \<and> run d0 b0 = (XZ_STREAM_END, d', b'))) \<or>
         (r = Inl (Fatal 2 Xz_dec_run_returned) \<and>
            (\<exists>d0 b0 x. out_pos b0 \<noteq> out_size b0 \<and> run d0 b0 = (x, d', b') \<and>
               x \<noteq> XZ_OK \<and> x \<noteq> XZ_STREAM_END)))"
  proof (cases "out_pos b \<noteq> out_size b")
    case False
    with 1(2) show ?thesis by auto
  next
    case True
    obtain xr d1 b1 where run: "run d b = (xr, d1, b1)" by (cases "run d b") auto
    show ?thesis
    proof (cases "xr = XZ_OK")
      case True
      with 1(2) \<open>out_pos b \<noteq> out_size b\<close> run have "loop run len d1 b1 = Some y" by simp
      then show ?thesis by (rule 1(1))
    next
      case notok: False
      show ?thesis
      proof (cases "xr = XZ_STREAM_END")
        case True
        with 1(2) \<open>out_pos b \<noteq> out_size b\<close> run have y: "y = (Inr 0, d1, b1)" by simp
        from \<open>out_pos b \<noteq> out_size b\<close> run True
        have "\<exists>d0 b0. out_pos b0 \<noteq> out_size b0 \<and> run d0 b0 = (XZ_STREAM_END, d1, b1)"
          by blast
        with y show ?thesis by simp
      next
        case False
        with notok 1(2) \<open>out_pos b \<noteq> out_size b\<close> run
        have y: "y = (Inl (Fatal 2 Xz_dec_run_returned), d1, b1)" by (cases xr) simp_all
        from \<open>out_pos b \<noteq> out_size b\<close> run False notok
        have "\<exists>d0 b0 x. out_pos b0 \<noteq> out_size b0 \<and> run d0 b0 = (x, d1, b1) \<and>
                x \<noteq> XZ_OK \<and> x \<noteq> XZ_STREAM_END"
          by blast
        with y show ?thesis by simp
      qed
    qed
  qed
qed

lemma xz_read_loop_returns:
  assumes "progress run mu"
  shows "\<exists>res. xz_read_loop run len d b = Some res"
proof (induction "mu d b" arbitrary: d b rule: less_induct)
  case less
  show ?case
  proof (cases "out_pos b \<noteq> out_size b")
    case False
    then show ?thesis by (subst xz_read_loop.simps) simp
  next
    case True
    obtain xr d1 b1 where run: "run d b = (xr, d1, b1)" by (cases "run d b") auto
    show ?thesis
    proof (cases xr)
      case XZ_OK
      with assms True run have "mu d1 b1 < mu d b" by (auto simp: progress_def)
      then have "\<exists>res. xz_read_loop run len d1 b1 = Some res" by (rule less)
      with True run XZ_OK show ?thesis by (subst xz_read_loop.simps) simp
    qed (use True run in \<open>subst xz_read_loop.simps, simp\<close>)+
  qed
qed


lemma xz_read_loop_stream:
  assumes "xz_read_loop run len d b = Some y"
  shows "streaming run pend \<longrightarrow> out_size b = len \<longrightarrow> out_pos b \<le> len \<longrightarrow> len \<le> length (out b) \<longrightarrow>
         (case y of (r, d', b') \<Rightarrow>
            (\<forall>k. r = Inr k \<and> k \<noteq> 0 \<longrightarrow>
               k = int len \<and> length (out b') = length (out b) \<and>
               take (out_pos b) (out b) @ pend d b = take len (out b') @ pend d' b'))"
proof (rule xz_read_loop.raw_induct [where P = "\<lambda>run len d b y.
         streaming run pend \<longrightarrow> out_size b = len \<longrightarrow> out_pos b \<le> len \<longrightarrow> len \<le> length (out b) \<longrightarrow>
         (case y of (r, d', b') \<Rightarrow>
            (\<forall>k. r = Inr k \<and> k \<noteq> 0 \<longrightarrow>
               k = int len \<and> length (out b') = length (out b) \<and>
               take (out_pos b) (out b) @ pend d b = take len (out b') @ pend d' b'))", OF _ assms])
  fix loop :: "'a xz_run \<Rightarrow> nat \<Rightarrow> 'a \<Rightarrow> xz_buf \<Rightarrow> ((failure + int) \<times> 'a \<times> xz_buf) option"
  fix run len d b y
  assume IH: "\<And>run len d b y. loop run len d b = Some y \<Longrightarrow>
         streaming run pend \<longrightarrow> out_size b = len \<longrightarrow> out_pos b \<le> len \<longrightarrow> len \<le> length (out b) \<longrightarrow>
         (case y of (r, d', b') \<Rightarrow>
            (\<forall>k. r = Inr k \<and> k \<noteq> 0 \<longrightarrow>
               k = int len \<and> length (out b') = length (out b) \<and>
               take (out_pos b) (out b) @ pend d b = take len (out b') @ pend d' b'))"
  assume body: "(if out_pos b \<noteq> out_size b then
        (case run d b of (xr, d', b') \<Rightarrow>
           (case xr of
              XZ_OK \<Rightarrow> loop run len d' b'
            | XZ_STREAM_END \<Rightarrow> Some (Inr 0, d', b')
            | _ \<Rightarrow> Some (Inl (Fatal 2 Xz_dec_run_returned), d', b')))
      else Some (Inr (int len), d, b)) = Some y"
  show "streaming run pend \<longrightarrow> out_size b = len \<longrightarrow> out_pos b \<le> len \<longrightarrow> len \<le> length (out b) \<longrightarrow>
         (case y of (r, d', b') \<Rightarrow>
            (\<forall>k. r = Inr k \<and> k \<noteq> 0 \<longrightarrow>
               k = int len \<and> length (out b') = length (out b) \<and>
               take (out_pos b) (out b) @ pend d b = take len (out b') @ pend d' b'))"
  proof (intro impI)
    assume st: "streaming run pend" and sz: "out_size b = len" and pos: "out_pos b \<le> len"
      and ln: "len \<le> length (out b)"
    show "case y of (r, d', b') \<Rightarrow>
            (\<forall>k. r = Inr k \<and> k \<noteq> 0 \<longrightarrow>
               k = int len \<and> length (out b') = length (out b) \<and>
               take (out_pos b) (out b) @ pend d b = take len (out b') @ pend d' b')"
    proof (cases "out_pos b \<noteq> out_size b")
      case False
      with body sz show ?thesis by auto
    next
      case True
      obtain xr d1 b1 where run: "run d b = (xr, d1, b1)" by (cases "run d b") auto
      from st run pos sz ln
      have c: "out_size b1 = out_size b" "length (out b1) = length (out b)"
        "out_pos b \<le> out_pos b1" "out_pos b1 \<le> out_size b"
        "take (out_pos b) (out b1) = take (out_pos b) (out b)"
        "xr = XZ_OK \<longrightarrow>
           pend d b = take (out_pos b1 - out_pos b) (drop (out_pos b) (out b1)) @ pend d1 b1"
        unfolding streaming_def by blast+
      show ?thesis
      proof (cases "xr = XZ_OK")
        case ok: True
        with body True run have "loop run len d1 b1 = Some y" by simp
        from IH [OF this] st c sz ln
        have *: "case y of (r, d', b') \<Rightarrow>
            (\<forall>k. r = Inr k \<and> k \<noteq> 0 \<longrightarrow>
               k = int len \<and> length (out b') = length (out b1) \<and>
               take (out_pos b1) (out b1) @ pend d1 b1 = take len (out b') @ pend d' b')"
          by simp
        have "take (out_pos b) (out b) @ pend d b =
              take (out_pos b) (out b1) @ take (out_pos b1 - out_pos b) (drop (out_pos b) (out b1)) @ pend d1 b1"
          using c ok by simp
        also have "\<dots> = take (out_pos b1) (out b1) @ pend d1 b1"
          using take_add [of "out_pos b" "out_pos b1 - out_pos b" "out b1"] c(3) by simp
        finally show ?thesis using * c(2) by (auto split: prod.splits)
      next
        case False
        with body True run show ?thesis by (cases xr) auto
      qed
    qed
  qed
qed

lemma pull_prefix:
  assumes st: "streaming run pend"
  shows "pull run d b ns = Some (Inr (ys, eof)) \<Longrightarrow>
         \<exists>k\<le>length ns. length ys = sum_list (take k ns) \<and> ys = take (sum_list (take k ns)) (pend d b)"
proof (induction ns arbitrary: d b ys eof)
  case Nil
  then show ?case by simp
next
  case (Cons n ns)
  from Cons.prems obtain r d1 b1 where rd: "xz_read run d b (replicate n 0) n = Some (r, d1, b1)"
    by (cases "xz_read run d b (replicate n 0) n") auto
  show ?case
  proof (cases r)
    case (Inl e)
    with Cons.prems rd show ?thesis by simp
  next
    case (Inr k)
    show ?thesis
    proof (cases "k \<le> 0")
      case True
      with Cons.prems rd Inr have "ys = []" by simp
      then show ?thesis by (intro exI [of _ 0]) simp
    next
      case False
      with Cons.prems rd Inr obtain ys' where
        p: "pull run d1 b1 ns = Some (Inr (ys', eof))" and ys: "ys = take (nat k) (out b1) @ ys'"
        by (auto split: option.splits sum.splits)
      from Cons.IH [OF p] obtain j where j: "j \<le> length ns" "length ys' = sum_list (take j ns)"
        "ys' = take (sum_list (take j ns)) (pend d1 b1)" by blast
      from rd have "xz_read_loop run n d (b\<lparr>out := replicate n 0, out_pos := 0, out_size := n\<rparr>) = Some (r, d1, b1)"
        by (simp add: xz_read_def)
      from xz_read_loop_stream [OF this, of pend] st Inr False
      have k: "k = int n" and l: "length (out b1) = n"
        and e: "pend d (b\<lparr>out := replicate n 0, out_pos := 0, out_size := n\<rparr>) = take n (out b1) @ pend d1 b1"
        by auto
      from st have "pend d (b\<lparr>out := replicate n 0, out_pos := 0, out_size := n\<rparr>) = pend d b"
        unfolding streaming_def by blast
      with e have e': "pend d b = take n (out b1) @ pend d1 b1" by simp
      have "length ys = sum_list (take (Suc j) (n # ns))" using ys k l j by simp
      moreover have "ys = take (sum_list (take (Suc j) (n # ns))) (pend d b)"
        using ys k l j e' by simp
      moreover have "Suc j \<le> length (n # ns)" using j by simp
      ultimately show ?thesis by blast
    qed
  qed
qed

lemma xz_single_whole:
  assumes st: "streaming run pend" and "xz_single run d b n = Some whole"
  shows "whole = pend d b"
proof -
  let ?b = "b\<lparr>out := replicate n 0, out_pos := 0, out_size := n\<rparr>"
  obtain xr d1 b1 where run: "run d ?b = (xr, d1, b1)" by (cases "run d ?b") auto
  with assms(2) have xr: "xr = XZ_STREAM_END" and w: "whole = take (out_pos b1) (out b1)"
    by (cases xr; simp add: xz_single_def)+
  from st run xr have "pend d ?b = take (out_pos b1 - out_pos ?b) (drop (out_pos ?b) (out b1))"
    unfolding streaming_def by (metis (no_types, lifting) length_replicate le0 order_refl
        select_convs(4,5,6) surjective update_convs(4,5,6))
  moreover from st have "pend d ?b = pend d b" unfolding streaming_def by blast
  ultimately show ?thesis using w by simp
qed

lemma pull_returns:
  assumes "progress run mu"
  shows "\<exists>res. pull run d b ns = Some res"
proof (induction ns arbitrary: d b)
  case Nil
  show ?case by simp
next
  case (Cons n ns)
  from xz_read_loop_returns [OF assms]
  obtain r d1 b1 where rd: "xz_read run d b (replicate n 0) n = Some (r, d1, b1)"
    unfolding xz_read_def by (metis prod_cases3)
  from Cons [of d1 b1] obtain res where "pull run d1 b1 ns = Some res" by blast
  with rd show ?case by (cases r; cases res) (auto split: sum.splits)
qed

lemma streaming_stored: "streaming stored_run stored_pend"
  unfolding streaming_def
proof (intro conjI allI impI)
  fix d b bf p s
  show "stored_pend d (b\<lparr>out := bf, out_pos := p, out_size := s\<rparr>) = stored_pend d b"
    by (simp add: stored_pend_def)
next
  fix d b r d' b'
  assume a: "stored_run d b = (r, d', b') \<and> out_pos b \<le> out_size b \<and> out_size b \<le> length (out b)"
  define avail where "avail = stored_pend d b"
  define e where "e = take (out_size b - out_pos b) avail"
  from a have b': "b' = b\<lparr>out := take (out_pos b) (out b) @ e @ drop (out_pos b + length e) (out b),
                 out_pos := out_pos b + length e, in_pos := in_pos b + length e\<rparr>"
    and r: "r = (if length e = length avail then XZ_STREAM_END
                 else if e = [] then XZ_BUF_ERROR else XZ_OK)" and d': "d' = d"
    by (auto simp: stored_run_def Let_def avail_def e_def)
  have le: "length e \<le> out_size b - out_pos b" by (simp add: e_def)
  have pe: "stored_pend d' b' = drop (length e) avail"
    by (simp add: stored_pend_def b' avail_def drop_take add.commute)
  have ee: "e = take (length e) avail" by (simp add: e_def min_def)
  have tk: "take (out_pos b' - out_pos b) (drop (out_pos b) (out b')) = e"
    using a le by (simp add: b')
  show "out_size b' = out_size b" by (simp add: b')
  show "length (out b') = length (out b)" using a le by (simp add: b') linarith
  show "out_pos b \<le> out_pos b'" by (simp add: b')
  show "out_pos b' \<le> out_size b" using a le by (simp add: b') linarith
  show "take (out_pos b) (out b') = take (out_pos b) (out b)" using a by (simp add: b')
  show "stored_pend d b = take (out_pos b' - out_pos b) (drop (out_pos b) (out b')) @ stored_pend d' b'"
    unfolding tk pe using ee avail_def by (metis append_take_drop_id)
  show "stored_pend d b = take (out_pos b' - out_pos b) (drop (out_pos b) (out b'))"
    if "r = XZ_STREAM_END"
    unfolding tk using that r ee avail_def by (auto split: if_splits)
qed

lemma progress_stored: "progress stored_run (\<lambda>d b. length (stored_pend d b))"
  unfolding progress_def
proof (intro allI impI)
  fix d b d' b'
  assume a: "out_pos b \<noteq> out_size b \<and> stored_run d b = (XZ_OK, d', b')"
  then show "length (stored_pend d' b') < length (stored_pend d b)"
    by (auto simp: stored_run_def Let_def stored_pend_def min_def split: if_splits)
qed

subsection \<open>The stored-format decoder at concrete inputs\<close>

lemma stored_read_first:
  "xz_read stored_run () (stored_buf [1, 2, 3, 4, 5]) [0, 0, 0, 0] 4 =
     Some (Inr 4, (), \<lparr>inp = [1, 2, 3, 4, 5], in_pos = 4, in_size = 5,
                        out = [1, 2, 3, 4], out_pos = 4, out_size = 4\<rparr>)"
  by code_simp

lemma stored_run_last:
  "stored_run () \<lparr>inp = [1, 2, 3, 4, 5], in_pos = 4, in_size = 5,
                    out = [0, 0, 0, 0], out_pos = 0, out_size = 4\<rparr> =
     (XZ_STREAM_END, (), \<lparr>inp = [1, 2, 3, 4, 5], in_pos = 5, in_size = 5,
                            out = [5, 0, 0, 0], out_pos = 1, out_size = 4\<rparr>)"
  by code_simp

lemma stored_single: "xz_single stored_run () (stored_buf [1, 2, 3, 4, 5]) 5 = Some [1, 2, 3, 4, 5]"
  by code_simp

lemma stored_pull_44:
  "pull stored_run () (stored_buf [1, 2, 3, 4, 5]) [4, 4] = Some (Inr ([1, 2, 3, 4], True))"
  by code_simp

lemma stored_pull_222:
  "pull stored_run () (stored_buf [1, 2, 3, 4, 5]) [2, 2, 2] = Some (Inr ([1, 2, 3, 4], True))"
  by code_simp

subsection \<open>The outcomes of a pull request\<close>

text \<open>
  C7. A call of \<^verbatim>\<open>xz_read\<close> for \<open>len\<close> bytes that returns has one of exactly three
  outcomes: it returns \<open>len\<close> with the output cursor at the end of the buffer; it
  returns 0 after a call of the decoder that answered \<^verbatim>\<open>XZ_STREAM_END\<close>; or it is the
  fatal error with status 2 after a call of the decoder that answered anything else
  than \<^verbatim>\<open>XZ_OK\<close> and \<^verbatim>\<open>XZ_STREAM_END\<close>. With a decoder that makes progress on every
  \<^verbatim>\<open>XZ_OK\<close>, the call does return.
\<close>

theorem xz_read_three_outcomes:
  "(\<forall>r d' b'. xz_read run d b buf len = Some (r, d', b') \<longrightarrow>
       (r = Inr (int len) \<and> out_pos b' = out_size b') \<or>
       (r = Inr 0 \<and> (\<exists>d0 b0. out_pos b0 \<noteq> out_size b0 \<and> run d0 b0 = (XZ_STREAM_END, d', b'))) \<or>
       (r = Inl (Fatal 2 Xz_dec_run_returned) \<and>
          (\<exists>d0 b0 x. out_pos b0 \<noteq> out_size b0 \<and> run d0 b0 = (x, d', b') \<and>
             x \<noteq> XZ_OK \<and> x \<noteq> XZ_STREAM_END))) \<and>
   (progress run mu \<longrightarrow> (\<exists>res. xz_read run d b buf len = Some res))"
proof (intro conjI allI impI)
  fix r d' b'
  assume "xz_read run d b buf len = Some (r, d', b')"
  then have "xz_read_loop run len d (b\<lparr>out := buf, out_pos := 0, out_size := len\<rparr>) = Some (r, d', b')"
    by (simp add: xz_read_def)
  from xz_read_loop_result [OF this]
  show "(r = Inr (int len) \<and> out_pos b' = out_size b') \<or>
       (r = Inr 0 \<and> (\<exists>d0 b0. out_pos b0 \<noteq> out_size b0 \<and> run d0 b0 = (XZ_STREAM_END, d', b'))) \<or>
       (r = Inl (Fatal 2 Xz_dec_run_returned) \<and>
          (\<exists>d0 b0 x. out_pos b0 \<noteq> out_size b0 \<and> run d0 b0 = (x, d', b') \<and>
             x \<noteq> XZ_OK \<and> x \<noteq> XZ_STREAM_END))"
    by simp
next
  assume "progress run mu"
  then show "\<exists>res. xz_read run d b buf len = Some res"
    unfolding xz_read_def by (rule xz_read_loop_returns)
qed

theorem xz_read_three_outcomes_witness:
  "xz_read stored_run () (stored_buf [1, 2, 3, 4, 5]) [0, 0, 0, 0] 4 =
     Some (Inr 4, (), \<lparr>inp = [1, 2, 3, 4, 5], in_pos = 4, in_size = 5,
                        out = [1, 2, 3, 4], out_pos = 4, out_size = 4\<rparr>) \<and>
   progress stored_run (\<lambda>d b. length (stored_pend d b))"
  using xz_read_three_outcomes [of stored_run "()" "stored_buf [1, 2, 3, 4, 5]" "[0, 0, 0, 0]" 4
      "\<lambda>d b. length (stored_pend d b)"] progress_stored stored_read_first
  by simp

text \<open>
  C9. \<^verbatim>\<open>xz_read\<close> never returns a positive count below the requested length: a
  returned count is 0 or \<open>len\<close>. When the decoder answers \<^verbatim>\<open>XZ_STREAM_END\<close> in any
  pass of the loop, whatever it has written into the buffer before and in that pass,
  the call returns 0, so the caller is not told about those bytes.
\<close>

theorem xz_read_all_or_nothing:
  "(\<forall>n d' b'. xz_read run d b buf len = Some (Inr n, d', b') \<longrightarrow> n = 0 \<or> n = int len) \<and>
   (\<forall>d1 b1 d' b'. out_pos b1 \<noteq> out_size b1 \<and> run d1 b1 = (XZ_STREAM_END, d', b') \<longrightarrow>
      xz_read_loop run len d1 b1 = Some (Inr 0, d', b')) \<and>
   (\<forall>d' b'. len \<noteq> 0 \<and> run d (b\<lparr>out := buf, out_pos := 0, out_size := len\<rparr>) = (XZ_STREAM_END, d', b') \<longrightarrow>
      xz_read run d b buf len = Some (Inr 0, d', b'))"
proof (intro conjI allI impI)
  fix n d' b'
  assume "xz_read run d b buf len = Some (Inr n, d', b')"
  then have "xz_read_loop run len d (b\<lparr>out := buf, out_pos := 0, out_size := len\<rparr>) = Some (Inr n, d', b')"
    by (simp add: xz_read_def)
  from xz_read_loop_result [OF this] show "n = 0 \<or> n = int len" by auto
next
  fix d1 b1 d' b'
  assume "out_pos b1 \<noteq> out_size b1 \<and> run d1 b1 = (XZ_STREAM_END, d', b')"
  then show "xz_read_loop run len d1 b1 = Some (Inr 0, d', b')"
    by (subst xz_read_loop.simps) simp
next
  fix d' b'
  assume "len \<noteq> 0 \<and> run d (b\<lparr>out := buf, out_pos := 0, out_size := len\<rparr>) = (XZ_STREAM_END, d', b')"
  then show "xz_read run d b buf len = Some (Inr 0, d', b')"
    unfolding xz_read_def by (subst xz_read_loop.simps) simp
qed

theorem xz_read_all_or_nothing_witness:
  "stored_run () \<lparr>inp = [1, 2, 3, 4, 5], in_pos = 4, in_size = 5,
                    out = [0, 0, 0, 0], out_pos = 0, out_size = 4\<rparr> =
     (XZ_STREAM_END, (), \<lparr>inp = [1, 2, 3, 4, 5], in_pos = 5, in_size = 5,
                            out = [5, 0, 0, 0], out_pos = 1, out_size = 4\<rparr>) \<and>
   xz_read stored_run () \<lparr>inp = [1, 2, 3, 4, 5], in_pos = 4, in_size = 5,
                           out = [1, 2, 3, 4], out_pos = 4, out_size = 4\<rparr> [0, 0, 0, 0] 4 =
     Some (Inr 0, (), \<lparr>inp = [1, 2, 3, 4, 5], in_pos = 5, in_size = 5,
                        out = [5, 0, 0, 0], out_pos = 1, out_size = 4\<rparr>)"
  using xz_read_all_or_nothing [of stored_run "()" "\<lparr>inp = [1, 2, 3, 4, 5], in_pos = 4, in_size = 5,
                           out = [1, 2, 3, 4], out_pos = 4, out_size = 4\<rparr>" "[0, 0, 0, 0]" 4]
    stored_run_last
  by simp

subsection \<open>Chunked pulls against one call\<close>

text \<open>
  C6, as stated, fails. The stored-format decoder honours the streaming contract
  and decompresses the five bytes 1..5 in one call; pulled in requests of 4 bytes, the
  first call delivers 1..4, the second meets the end of the stream with one byte
  in its buffer and returns 0, and the caller has received four bytes, not five.
\<close>

theorem chunked_pull_loses_tail:
  "streaming stored_run stored_pend \<and>
   xz_single stored_run () (stored_buf [1, 2, 3, 4, 5]) 5 = Some [1, 2, 3, 4, 5] \<and>
   pull stored_run () (stored_buf [1, 2, 3, 4, 5]) [4, 4] = Some (Inr ([1, 2, 3, 4], True))"
  using streaming_stored stored_single stored_pull_44 by simp

text \<open>
  C6, amended. For a decoder that honours the streaming contract and any list of
  request sizes, the bytes delivered by successive calls of \<^verbatim>\<open>xz_read\<close> are a prefix of
  the output of decompressing the whole stream in one call: the bytes of the first
  \<open>k\<close> requests, each filled completely, for some \<open>k\<close>. With a decoder that makes
  progress the sequence of calls returns.
\<close>

theorem pull_delivers_prefix:
  "streaming run pend \<and> xz_single run d b n = Some whole \<longrightarrow>
     (\<forall>ys eof. pull run d b ns = Some (Inr (ys, eof)) \<longrightarrow>
        (\<exists>k\<le>length ns. length ys = sum_list (take k ns) \<and> ys = take (sum_list (take k ns)) whole)) \<and>
     (progress run mu \<longrightarrow> (\<exists>res. pull run d b ns = Some res))"
proof (intro impI conjI allI)
  fix ys eof
  assume a: "streaming run pend \<and> xz_single run d b n = Some whole"
    and p: "pull run d b ns = Some (Inr (ys, eof))"
  from a have "whole = pend d b" by (intro xz_single_whole [of run pend d b n whole]) simp_all
  with pull_prefix [OF _ p, of pend] a
  show "\<exists>k\<le>length ns. length ys = sum_list (take k ns) \<and> ys = take (sum_list (take k ns)) whole"
    by simp
next
  assume "progress run mu"
  then show "\<exists>res. pull run d b ns = Some res" by (rule pull_returns)
qed

theorem pull_delivers_prefix_witness:
  "streaming stored_run stored_pend \<and>
   xz_single stored_run () (stored_buf [1, 2, 3, 4, 5]) 5 = Some [1, 2, 3, 4, 5] \<and>
   pull stored_run () (stored_buf [1, 2, 3, 4, 5]) [2, 2, 2] = Some (Inr ([1, 2, 3, 4], True)) \<and>
   progress stored_run (\<lambda>d b. length (stored_pend d b))"
  using pull_delivers_prefix [of stored_run stored_pend "()" "stored_buf [1, 2, 3, 4, 5]" 5
      "[1, 2, 3, 4, 5]" "[2, 2, 2]" "\<lambda>d b. length (stored_pend d b)"]
    streaming_stored progress_stored stored_single stored_pull_222
  by simp

section \<open>The ELF patcher: results\<close>

subsection \<open>Loads, stores and strings\<close>

lemma ptr_add_ehdr: "ptr_add ehdr off = off"
  by (simp add: ptr_add_def ehdr_def)

lemma store_bytes_length: "store_bytes m a bs = Inr m' \<Longrightarrow> length m' = length m"
  by (auto simp: store_bytes_def split: if_splits)

lemma store_bytes_read:
  "store_bytes m a bs = Inr m' \<Longrightarrow> take (length bs) (drop (unat a) m') = bs"
  by (auto simp: store_bytes_def split: if_splits)

lemma store_bytes_other:
  "store_bytes m a bs = Inr m' \<Longrightarrow> i < unat a \<or> unat a + length bs \<le> i \<Longrightarrow> m' ! i = m ! i"
  by (auto simp: store_bytes_def nth_append split: if_splits)

lemma strlen_bytes_append: "0 \<notin> set xs \<Longrightarrow> strlen_bytes (xs @ 0 # ys) = Inr (length xs)"
  by (induction xs) auto


lemma unat_last_index:
  fixes off sz :: "64 word"
  assumes "sz \<noteq> 0" and "unat off + unat sz \<le> n" and "n < 2 ^ 64"
  shows "unat (sz - 1) = unat sz - 1" and "unat (off + (sz - 1)) = unat off + unat sz - 1"
proof -
  show a: "unat (sz - 1) = unat sz - 1" using assms(1) by (rule unat_minus_one)
  have "unat sz \<noteq> 0" using assms(1) by (simp add: unat_eq_zero)
  then have "unat off + unat (sz - 1) < 2 ^ LENGTH(64)" using a assms(2,3) by simp
  then have "unat (off + (sz - 1)) = unat off + unat (sz - 1)"
    using unat_add_lem [of off "sz - 1"] by blast
  with a \<open>unat sz \<noteq> 0\<close> show "unat (off + (sz - 1)) = unat off + unat sz - 1" by simp
qed

subsection \<open>A failed patch operation has written nothing\<close>

lemma keeps_Failed: "keeps m (Failed e m)" and keeps_Patched: "keeps m (Patched m')"
  by (simp_all add: keeps_def)

lemma keeps_sum: "(\<And>v. keeps m (f v)) \<Longrightarrow> keeps m (case x of Inl e \<Rightarrow> Failed e m | Inr v \<Rightarrow> f v)"
  by (cases x) (simp_all add: keeps_Failed)

lemma keeps_option: "keeps m a \<Longrightarrow> (\<And>v. keeps m (f v)) \<Longrightarrow> keeps m (case x of None \<Rightarrow> a | Some v \<Rightarrow> f v)"
  by (cases x) simp_all

lemma keeps_prod: "(\<And>a b. keeps m (f a b)) \<Longrightarrow> keeps m (case p of (a, b) \<Rightarrow> f a b)"
  by (cases p) simp

lemma keeps_if: "keeps m a \<Longrightarrow> keeps m b \<Longrightarrow> keeps m (if c then a else b)"
  by simp

lemmas keeps_intros = keeps_Failed keeps_Patched keeps_sum keeps_option keeps_prod keeps_if

lemma keeps_set_interp: "keeps m (set_interp m new)"
  unfolding set_interp_def Let_def by (intro keeps_intros)

lemma keeps_set_rpath: "keeps m (set_rpath m new)"
  unfolding set_rpath_def Let_def by (intro keeps_intros)

lemma set_interp_Failed_same: "set_interp m new = Failed e m' \<Longrightarrow> m' = m"
  using keeps_set_interp [of m new] by (simp add: keeps_def)

lemma set_rpath_Failed_same: "set_rpath m new = Failed e m' \<Longrightarrow> m' = m"
  using keeps_set_rpath [of m new] by (simp add: keeps_def)

subsection \<open>The sample images at concrete inputs\<close>

lemma target_length: "length target_img = 496"
  by code_simp

lemma target_ph: "elf_get_proghdr_by_type target_img PT_INTERP = Inr (Some 64)"
  by code_simp

lemma target_off: "p_offset target_img 64 = Inr 120"
  by code_simp

lemma target_sz: "p_filesz target_img 64 = Inr 8"
  by code_simp

lemma target_nul: "target_img ! 127 = 0"
  by code_simp

lemma target_valid: "elf_is_valid target_img = Inr True"
  by code_simp

lemma target_set_interp: "set_interp target_img (map of_char ''/t/i'') = Patched target_img_interp_set"
  by code_simp

lemma target_set_interp_long:
  "set_interp target_img (map of_char ''/tmp/staticx-abcdef/.staticx.interp'') =
     Failed (Fatal 2 INTERP_too_small) target_img"
  by code_simp

lemma target_set_rpath_long:
  "set_rpath target_img_interp_set (map of_char ''/tmp/staticx-abcdef'') =
     Failed (Fatal 2 RPATH_too_small) target_img_interp_set"
  by code_simp

lemma target_patch_long:
  "patch_prog_paths target_img (map of_char ''/t/i'') (map of_char ''/tmp/staticx-abcdef'') =
     Failed (Fatal 2 RPATH_too_small) target_img_interp_set"
  by code_simp

lemma target_changed: "target_img_interp_set \<noteq> target_img"
  by code_simp

lemma empty_interp_ph: "elf_get_proghdr_by_type empty_interp_img PT_INTERP = Inr (Some 64)"
  by code_simp

lemma empty_interp_off: "p_offset empty_interp_img 64 = Inr 120"
  by code_simp

lemma empty_interp_sz: "p_filesz empty_interp_img 64 = Inr 0"
  by code_simp

lemma empty_interp_before: "load8 empty_interp_img 119 = Inr 0"
  by code_simp

lemma empty_interp_strcpy:
  "strcpy empty_interp_img 120 (map of_char ''/t/i/longer'') =
     Inr (sample_target 0 (map of_char ''/t/i/longer'' @ [0]) target_dynstr 15
            [(1, 1), (15, 6), (0, 0)])"
  by code_simp

lemma two_rpath_sections:
  "elf_get_section_by_name two_rpath_img dot_dynamic = Inr (Some 256)"
  "sh_offset two_rpath_img 256 = Inr 448"
  "sh_size two_rpath_img 256 = Inr 80"
  "elf_get_section_by_name two_rpath_img dot_dynstr = Inr (Some 320)"
  "sh_offset two_rpath_img 320 = Inr 168"
  "sh_size two_rpath_img 320 = Inr 15"
  by code_simp+

lemma two_rpath_walk: "dyn_loop two_rpath_img 448 5 0 None = Inr (3, Some 480)"
  by code_simp

lemma two_rpath_set:
  "set_rpath two_rpath_img (map of_char ''/t'') =
     Patched (sample_target 8 target_interp
               (0 # map of_char ''/t'' @ 0 # map of_char ''c'' @ 0 # map of_char ''XXXXXXXX'' @ [0]) 15
               [(1, 1), (15, 6), (15, 1), (0, 0), (15, 11)])"
  by code_simp

lemma short_dynstr_facts:
  "elf_get_section_by_name short_dynstr_img dot_dynstr = Inr (Some 320)"
  "sh_size short_dynstr_img 320 = Inr 6"
  "d_val short_dynstr_img 464 = Inr 6"
  by code_simp+

lemma short_dynstr_set: "set_rpath short_dynstr_img (map of_char ''/t'') = Patched short_dynstr_img_patched"
  by code_simp

lemma short_dynstr_changed: "short_dynstr_img_patched \<noteq> short_dynstr_img"
  by code_simp

lemma header_only_facts:
  "length header_only_img = 64"
  "elf_is_valid header_only_img = Inr True"
  "e_phoff header_only_img = Inr 4096"
  "e_phentsize header_only_img = Inr 56"
  "e_phnum header_only_img = Inr 1"
  "e_shoff header_only_img = Inr 4096"
  "e_shstrndx header_only_img = Inr 0"
  by code_simp+

lemma header_only_lookups:
  "elf_get_proghdr_by_type header_only_img PT_INTERP = Inl Fault"
  "elf_get_section_by_name header_only_img dot_dynamic = Inl Fault"
  by code_simp+

lemma target_header:
  "e_phoff target_img = Inr 64"
  "e_phentsize target_img = Inr 56"
  "e_phnum target_img = Inr 1"
  by code_simp+

subsection \<open>\<^verbatim>\<open>set_interp\<close>\<close>

text \<open>
  C2. Let the image have a \<^verbatim>\<open>PT_INTERP\<close> header whose segment, at offset \<open>off\<close> with size
  \<open>sz\<close>, lies in the buffer, is not empty and ends with a NUL. Then \<^verbatim>\<open>set_interp\<close> is the
  fatal error \<open>INTERP_too_small\<close>, with the buffer untouched, when the length of the new
  string plus one exceeds \<open>sz\<close>. Otherwise it succeeds: the buffer keeps its length,
  the bytes at the segment's offset read back as the new string followed by a NUL
  (so \<^verbatim>\<open>strlen\<close> there gives its length), and no byte outside the segment has changed.
\<close>

theorem set_interp_in_place:
  assumes ph: "elf_get_proghdr_by_type m PT_INTERP = Inr (Some ph)"
    and off: "p_offset m ph = Inr off" and sz: "p_filesz m ph = Inr sz"
    and nz: "sz \<noteq> 0" and inb: "unat off + unat sz \<le> length m" and len: "length m < 2 ^ 64"
    and nul: "m ! (unat off + unat sz - 1) = 0"
  shows "(unat sz < length new + 1 \<longrightarrow> set_interp m new = Failed (Fatal 2 INTERP_too_small) m) \<and>
         (length new + 1 \<le> unat sz \<longrightarrow>
            (\<exists>m'. set_interp m new = Patched m' \<and> length m' = length m \<and>
                  load_bytes m' (ptr_add ehdr off) (length new + 1) = Inr (new @ [0]) \<and>
                  (0 \<notin> set new \<longrightarrow> strlen m' (ptr_add ehdr off) = Inr (length new)) \<and>
                  (\<forall>i. i < unat off \<or> unat off + unat sz \<le> i \<longrightarrow> m' ! i = m ! i)))"
proof -
  note idx = unat_last_index [OF nz inb len]
  have "unat sz \<noteq> 0" using nz by (simp add: unat_eq_zero)
  then have chk: "load8 m (ptr_add (ptr_add ehdr off) (sz - 1)) = Inr 0"
    using idx inb nul by (simp add: load8_def ptr_add_def ehdr_def)
  have si: "set_interp m new =
      (if length new > unat sz - 1 then Failed (Fatal 2 INTERP_too_small) m
       else case strcpy m off new of Inl e \<Rightarrow> Failed e m | Inr m' \<Rightarrow> Patched m')"
    using chk by (simp add: set_interp_def ph off sz idx ptr_add_ehdr)
  show ?thesis
  proof (intro conjI impI)
    assume "unat sz < length new + 1"
    with \<open>unat sz \<noteq> 0\<close> have "unat sz - 1 < length new" by arith
    then show "set_interp m new = Failed (Fatal 2 INTERP_too_small) m"
      using si by simp
  next
    assume fit: "length new + 1 \<le> unat sz"
    define m' where "m' = take (unat off) m @ (new @ [0]) @ drop (unat off + length (new @ [0])) m"
    have st: "store_bytes m off (new @ [0]) = Inr m'"
      using fit inb by (simp add: store_bytes_def m'_def)
    from fit have "\<not> unat sz - 1 < length new" by arith
    then have "set_interp m new = Patched m'" using si st by (simp add: strcpy_def)
    moreover have l: "length m' = length m" using st by (rule store_bytes_length)
    moreover have rd: "take (length new + 1) (drop (unat off) m') = new @ [0]"
      using store_bytes_read [OF st] by simp
    then have "load_bytes m' (ptr_add ehdr off) (length new + 1) = Inr (new @ [0])"
      using l fit inb by (simp add: load_bytes_def ptr_add_ehdr)
    moreover have "strlen m' (ptr_add ehdr off) = Inr (length new)" if "0 \<notin> set new"
    proof -
      have "drop (unat off) m' = (new @ [0]) @ drop (length new + 1) (drop (unat off) m')"
        using rd by (metis append_take_drop_id)
      then have "strlen_bytes (drop (unat off) m') = Inr (length new)"
        using strlen_bytes_append [OF that, of "drop (length new + 1) (drop (unat off) m')"]
        by simp
      then show ?thesis by (simp add: strlen_def ptr_add_ehdr)
    qed
    moreover have "m' ! i = m ! i" if "i < unat off \<or> unat off + unat sz \<le> i" for i
      using store_bytes_other [OF st, of i] that fit by auto
    ultimately show "\<exists>m'. set_interp m new = Patched m' \<and> length m' = length m \<and>
                  load_bytes m' (ptr_add ehdr off) (length new + 1) = Inr (new @ [0]) \<and>
                  (0 \<notin> set new \<longrightarrow> strlen m' (ptr_add ehdr off) = Inr (length new)) \<and>
                  (\<forall>i. i < unat off \<or> unat off + unat sz \<le> i \<longrightarrow> m' ! i = m ! i)"
      by blast
  qed
qed

theorem set_interp_in_place_witness:
  "elf_get_proghdr_by_type target_img PT_INTERP = Inr (Some 64) \<and>
   p_offset target_img 64 = Inr 120 \<and> p_filesz target_img 64 = Inr 8 \<and>
   length target_img = 496 \<and> target_img ! 127 = 0 \<and>
   set_interp target_img (map of_char ''/tmp/staticx-abcdef/.staticx.interp'') =
     Failed (Fatal 2 INTERP_too_small) target_img \<and>
   (\<exists>m'. set_interp target_img (map of_char ''/t/i'') = Patched m' \<and> length m' = 496 \<and>
         load_bytes m' 120 5 = Inr (map of_char ''/t/i'' @ [0]) \<and> strlen m' 120 = Inr 4)"
proof -
  have s: "(8::64 word) \<noteq> 0" "unat (120::64 word) + unat (8::64 word) \<le> length target_img"
    "length target_img < 2 ^ 64" "target_img ! (unat (120::64 word) + unat (8::64 word) - 1) = 0"
    using target_length target_nul by simp_all
  note T = set_interp_in_place [OF target_ph target_off target_sz s]
  have "unat (8 :: 64 word) <
        length (map of_char ''/tmp/staticx-abcdef/.staticx.interp'' :: byte list) + 1"
    by simp
  with T [of "map of_char ''/tmp/staticx-abcdef/.staticx.interp''"]
  have long: "set_interp target_img (map of_char ''/tmp/staticx-abcdef/.staticx.interp'') =
     Failed (Fatal 2 INTERP_too_small) target_img"
    by blast
  have nz: "0 \<notin> set (map of_char ''/t/i'' :: byte list)" by code_simp
  have f: "length (map of_char ''/t/i'' :: byte list) + 1 \<le> unat (8 :: 64 word)"
    "length (map of_char ''/t/i'' :: byte list) = 4"
    by simp_all
  from T [of "map of_char ''/t/i''"] f(1) nz
  obtain m' where "set_interp target_img (map of_char ''/t/i'') = Patched m'"
    "length m' = length target_img"
    "load_bytes m' (ptr_add ehdr 120) (length (map of_char ''/t/i'' :: byte list) + 1) =
       Inr (map of_char ''/t/i'' @ [0])"
    "strlen m' (ptr_add ehdr 120) = Inr (length (map of_char ''/t/i'' :: byte list))"
    by blast
  then have "\<exists>m'. set_interp target_img (map of_char ''/t/i'') = Patched m' \<and> length m' = 496 \<and>
         load_bytes m' 120 5 = Inr (map of_char ''/t/i'' @ [0]) \<and> strlen m' 120 = Inr 4"
    unfolding f(2) ptr_add_ehdr target_length by auto
  with long target_ph target_off target_sz target_length target_nul show ?thesis by blast
qed

text \<open>
  C10. With the \<^verbatim>\<open>PT_INTERP\<close> header found, the first thing \<^verbatim>\<open>set_interp\<close> does is to read
  the byte at index \<open>sz - 1\<close> of the segment, computed in 64 bits; no test of \<open>sz\<close>
  comes before. For \<open>sz \<ge> 1\<close> the index is below \<open>sz\<close>, and for a segment inside the
  buffer the read is inside the buffer. For \<open>sz = 0\<close> the index is \<open>2\<^sup>6\<^sup>4 - 1\<close>, not below
  \<open>sz\<close>: the byte read is the one before the segment, and when that address is outside
  the buffer the access is a fault.
\<close>

theorem set_interp_nul_check:
  assumes ph: "elf_get_proghdr_by_type m PT_INTERP = Inr (Some ph)"
    and off: "p_offset m ph = Inr off" and sz: "p_filesz m ph = Inr sz"
  shows "set_interp m new =
           (case load8 m (off + (sz - 1)) of
              Inl e \<Rightarrow> Failed e m
            | Inr c \<Rightarrow>
                if c \<noteq> 0 then Failed (Fatal 2 INTERP_not_NUL_terminated) m
                else if length new > unat (sz - 1) then Failed (Fatal 2 INTERP_too_small) m
                else (case strcpy m off new of Inl e \<Rightarrow> Failed e m | Inr m' \<Rightarrow> Patched m')) \<and>
         (sz \<noteq> 0 \<longrightarrow> unat (sz - 1) < unat sz) \<and>
         (sz \<noteq> 0 \<and> unat off + unat sz \<le> length m \<and> length m < 2 ^ 64 \<longrightarrow>
            load8 m (off + (sz - 1)) = Inr (m ! (unat off + (unat sz - 1)))) \<and>
         (sz = 0 \<longrightarrow> off + (sz - 1) = off - 1 \<and> unat (sz - 1) = 2 ^ 64 - 1 \<and>
                     \<not> unat (sz - 1) < unat sz) \<and>
         (sz = 0 \<and> length m \<le> unat (off - 1) \<longrightarrow> set_interp m new = Failed Fault m)"
proof (intro conjI impI)
  show si: "set_interp m new =
           (case load8 m (off + (sz - 1)) of
              Inl e \<Rightarrow> Failed e m
            | Inr c \<Rightarrow>
                if c \<noteq> 0 then Failed (Fatal 2 INTERP_not_NUL_terminated) m
                else if length new > unat (sz - 1) then Failed (Fatal 2 INTERP_too_small) m
                else (case strcpy m off new of Inl e \<Rightarrow> Failed e m | Inr m' \<Rightarrow> Patched m'))"
    by (simp add: set_interp_def ph off sz ptr_add_def ehdr_def split: sum.split)
  show "unat (sz - 1) < unat sz" if "sz \<noteq> 0"
  proof -
    from that have "unat sz \<noteq> 0" by (simp add: unat_eq_zero)
    moreover from that have "unat (sz - 1) = unat sz - 1" by (rule unat_minus_one)
    ultimately show ?thesis by arith
  qed
  show "load8 m (off + (sz - 1)) = Inr (m ! (unat off + (unat sz - 1)))"
    if a: "sz \<noteq> 0 \<and> unat off + unat sz \<le> length m \<and> length m < 2 ^ 64"
  proof -
    from a have z: "unat sz \<noteq> 0" by (simp add: unat_eq_zero)
    from a have m1: "unat (sz - 1) = unat sz - 1" by (simp add: unat_minus_one)
    with a z have "unat off + unat (sz - 1) < 2 ^ 64" by arith
    then have "unat off + unat (sz - 1) < 2 ^ LENGTH(64)" by simp
    then have "unat (off + (sz - 1)) = unat off + unat (sz - 1)"
      using unat_add_lem [of off "sz - 1"] by blast
    moreover from a z have "unat off + (unat sz - 1) < length m" by arith
    ultimately show ?thesis using m1 by (simp add: load8_def)
  qed
  show "off + (sz - 1) = off - 1" if "sz = 0" using that by simp
  show "unat (sz - 1) = 2 ^ 64 - 1" if "sz = 0" using that by (simp add: unsigned_minus_1_eq_mask mask_eq_exp_minus_1)
  show "\<not> unat (sz - 1) < unat sz" if "sz = 0" using that by simp
  show "set_interp m new = Failed Fault m" if "sz = 0 \<and> length m \<le> unat (off - 1)"
    using that si by (simp add: load8_def)
qed

theorem set_interp_nul_check_witness:
  "elf_get_proghdr_by_type empty_interp_img PT_INTERP = Inr (Some 64) \<and>
   p_offset empty_interp_img 64 = Inr 120 \<and> p_filesz empty_interp_img 64 = Inr 0 \<and>
   load8 empty_interp_img 119 = Inr 0 \<and>
   set_interp empty_interp_img (map of_char ''/t/i/longer'') =
     Patched (sample_target 0 (map of_char ''/t/i/longer'' @ [0]) target_dynstr 15
                [(1, 1), (15, 6), (0, 0)]) \<and>
   p_filesz target_img 64 = Inr 8 \<and> unat (8 - 1 :: 64 word) < unat (8 :: 64 word) \<and>
   load8 target_img (120 + (8 - 1)) = Inr (target_img ! 127)"
proof -
  note E = set_interp_nul_check [OF empty_interp_ph empty_interp_off empty_interp_sz,
      of "map of_char ''/t/i/longer''"]
  have "unat (- 1 :: 64 word) = 2 ^ 64 - 1"
    by (simp add: unsigned_minus_1_eq_mask mask_eq_exp_minus_1)
  with E empty_interp_before empty_interp_strcpy
  have a: "set_interp empty_interp_img (map of_char ''/t/i/longer'') =
     Patched (sample_target 0 (map of_char ''/t/i/longer'' @ [0]) target_dynstr 15
                [(1, 1), (15, 6), (0, 0)])"
    by simp
  note T = set_interp_nul_check [OF target_ph target_off target_sz, of "[]"]
  from T target_length have b: "load8 target_img (120 + (8 - 1)) = Inr (target_img ! 127)"
    by simp
  from a b empty_interp_ph empty_interp_off empty_interp_sz empty_interp_before target_sz
  show ?thesis by simp
qed

subsection \<open>The walk of the dynamic table\<close>

lemma dyn_loop_walk:
  "dyn_loop m tab n i0 r0 = Inr (i, r) \<Longrightarrow> i0 \<le> n \<Longrightarrow>
     i0 \<le> i \<and> i \<le> n \<and>
     (\<forall>j. i0 \<le> j \<and> j < i \<longrightarrow> (\<exists>t. d_tag m (ent tab j) = Inr t \<and> t \<noteq> DT_NULL)) \<and>
     (i < n \<longrightarrow> d_tag m (ent tab i) = Inr DT_NULL) \<and>
     ((r = r0 \<and> (\<forall>j. i0 \<le> j \<and> j < i \<longrightarrow> d_tag m (ent tab j) \<noteq> Inr DT_RPATH)) \<or>
      (\<exists>j. i0 \<le> j \<and> j < i \<and> r = Some (ent tab j) \<and> d_tag m (ent tab j) = Inr DT_RPATH \<and>
           (\<forall>k. j < k \<and> k < i \<longrightarrow> d_tag m (ent tab k) \<noteq> Inr DT_RPATH)))"
proof (induction m tab n i0 r0 rule: dyn_loop.induct)
  case (1 m tab n i0 r0)
  show ?case
  proof (cases "i0 < n")
    case False
    with "1.prems" have "i = i0" "r = r0" "i0 = n"
      by (simp_all add: dyn_loop.simps [of m tab n i0 r0])
    then show ?thesis by auto
  next
    case True
    from "1.prems"(1) True obtain t where t: "d_tag m (ent tab i0) = Inr t"
      by (cases "d_tag m (ent tab i0)") (simp_all add: dyn_loop.simps [of m tab n i0 r0] Let_def)
    show ?thesis
    proof (cases "t = DT_NULL")
      case null: True
      with "1.prems"(1) True t have "i = i0" "r = r0"
        by (simp_all add: dyn_loop.simps [of m tab n i0 r0] Let_def)
      with True t null show ?thesis by auto
    next
      case nonnull: False
      show ?thesis
      proof (cases "t = DT_RPATH")
        case rp: True
        with "1.prems"(1) True t nonnull
        have rec: "dyn_loop m tab n (Suc i0) (Some (ent tab i0)) = Inr (i, r)"
          by (simp add: dyn_loop.simps [of m tab n i0 r0] Let_def)
        from "1.IH"(1) [OF True refl t nonnull rp rec] True
        have ih: "Suc i0 \<le> i" "i \<le> n"
          "\<forall>j. Suc i0 \<le> j \<and> j < i \<longrightarrow> (\<exists>t. d_tag m (ent tab j) = Inr t \<and> t \<noteq> DT_NULL)"
          "i < n \<longrightarrow> d_tag m (ent tab i) = Inr DT_NULL"
          "(r = Some (ent tab i0) \<and> (\<forall>j. Suc i0 \<le> j \<and> j < i \<longrightarrow> d_tag m (ent tab j) \<noteq> Inr DT_RPATH)) \<or>
           (\<exists>j. Suc i0 \<le> j \<and> j < i \<and> r = Some (ent tab j) \<and> d_tag m (ent tab j) = Inr DT_RPATH \<and>
             (\<forall>k. j < k \<and> k < i \<longrightarrow> d_tag m (ent tab k) \<noteq> Inr DT_RPATH))"
          by simp_all
        have a: "\<forall>j. i0 \<le> j \<and> j < i \<longrightarrow> (\<exists>t. d_tag m (ent tab j) = Inr t \<and> t \<noteq> DT_NULL)"
          using ih(3) t nonnull by (metis Suc_leI le_neq_implies_less)
        have b: "\<exists>j. i0 \<le> j \<and> j < i \<and> r = Some (ent tab j) \<and> d_tag m (ent tab j) = Inr DT_RPATH \<and>
             (\<forall>k. j < k \<and> k < i \<longrightarrow> d_tag m (ent tab k) \<noteq> Inr DT_RPATH)"
          using ih(5)
        proof
          assume "r = Some (ent tab i0) \<and> (\<forall>j. Suc i0 \<le> j \<and> j < i \<longrightarrow> d_tag m (ent tab j) \<noteq> Inr DT_RPATH)"
          with ih(1) t rp show ?thesis by (intro exI [of _ i0]) (simp add: Suc_le_eq)
        next
          assume "\<exists>j. Suc i0 \<le> j \<and> j < i \<and> r = Some (ent tab j) \<and> d_tag m (ent tab j) = Inr DT_RPATH \<and>
             (\<forall>k. j < k \<and> k < i \<longrightarrow> d_tag m (ent tab k) \<noteq> Inr DT_RPATH)"
          then show ?thesis using Suc_leD by blast
        qed
        from ih(1,2,4) a b show ?thesis by simp
      next
        case other: False
        with "1.prems"(1) True t nonnull
        have rec: "dyn_loop m tab n (Suc i0) r0 = Inr (i, r)"
          by (simp add: dyn_loop.simps [of m tab n i0 r0] Let_def)
        from "1.IH"(2) [OF True refl t nonnull other rec] True
        have ih: "Suc i0 \<le> i" "i \<le> n"
          "\<forall>j. Suc i0 \<le> j \<and> j < i \<longrightarrow> (\<exists>t. d_tag m (ent tab j) = Inr t \<and> t \<noteq> DT_NULL)"
          "i < n \<longrightarrow> d_tag m (ent tab i) = Inr DT_NULL"
          "(r = r0 \<and> (\<forall>j. Suc i0 \<le> j \<and> j < i \<longrightarrow> d_tag m (ent tab j) \<noteq> Inr DT_RPATH)) \<or>
           (\<exists>j. Suc i0 \<le> j \<and> j < i \<and> r = Some (ent tab j) \<and> d_tag m (ent tab j) = Inr DT_RPATH \<and>
             (\<forall>k. j < k \<and> k < i \<longrightarrow> d_tag m (ent tab k) \<noteq> Inr DT_RPATH))"
          by simp_all
        have a: "\<forall>j. i0 \<le> j \<and> j < i \<longrightarrow> (\<exists>t. d_tag m (ent tab j) = Inr t \<and> t \<noteq> DT_NULL)"
          using ih(3) t nonnull by (metis Suc_leI le_neq_implies_less)
        have b: "(r = r0 \<and> (\<forall>j. i0 \<le> j \<and> j < i \<longrightarrow> d_tag m (ent tab j) \<noteq> Inr DT_RPATH)) \<or>
           (\<exists>j. i0 \<le> j \<and> j < i \<and> r = Some (ent tab j) \<and> d_tag m (ent tab j) = Inr DT_RPATH \<and>
             (\<forall>k. j < k \<and> k < i \<longrightarrow> d_tag m (ent tab k) \<noteq> Inr DT_RPATH))"
          using ih(5)
        proof
          assume c: "r = r0 \<and> (\<forall>j. Suc i0 \<le> j \<and> j < i \<longrightarrow> d_tag m (ent tab j) \<noteq> Inr DT_RPATH)"
          have "d_tag m (ent tab j) \<noteq> Inr DT_RPATH" if "i0 \<le> j \<and> j < i" for j
          proof (cases "j = i0")
            case True
            with t other show ?thesis by simp
          next
            case False
            with that have "Suc i0 \<le> j \<and> j < i" by simp
            with c show ?thesis by blast
          qed
          with c show ?thesis by blast
        next
          assume "\<exists>j. Suc i0 \<le> j \<and> j < i \<and> r = Some (ent tab j) \<and> d_tag m (ent tab j) = Inr DT_RPATH \<and>
             (\<forall>k. j < k \<and> k < i \<longrightarrow> d_tag m (ent tab k) \<noteq> Inr DT_RPATH)"
          then show ?thesis using Suc_leD by blast
        qed
        from ih(1,2,4) a b show ?thesis by simp
      qed
    qed
  qed
qed

text \<open>
  C8. Let \<^verbatim>\<open>set_rpath\<close> have found both sections, and let the walk of the dynamic table
  end with the counter \<open>i\<close> and the entry \<open>r\<close>. Then \<open>i\<close> is at most the size of
  \<^verbatim>\<open>.dynamic\<close> divided by the entry size; the tags of the entries before \<open>i\<close> were read and
  none is \<^verbatim>\<open>DT_NULL\<close>, and if the walk stopped before the end of the table, entry \<open>i\<close> is
  the \<^verbatim>\<open>DT_NULL\<close> that stopped it. If \<open>r\<close> is no entry, no entry before \<open>i\<close> is a
  \<^verbatim>\<open>DT_RPATH\<close> and \<^verbatim>\<open>set_rpath\<close> is the fatal error of the missing tag. Otherwise \<open>r\<close> is the
  last \<^verbatim>\<open>DT_RPATH\<close> entry before \<open>i\<close>, and it is the entry \<^verbatim>\<open>set_rpath\<close> goes on to patch.
\<close>

theorem set_rpath_walk:
  assumes dyn: "elf_get_section_by_name m dot_dynamic = Inr (Some dyn_sh)"
    and dyn_off: "sh_offset m dyn_sh = Inr dyn_off" and dyn_size: "sh_size m dyn_sh = Inr dyn_size"
    and dynstr: "elf_get_section_by_name m dot_dynstr = Inr (Some dynstr_sh)"
    and dynstr_off: "sh_offset m dynstr_sh = Inr dynstr_off"
    and dynstrsz: "sh_size m dynstr_sh = Inr dynstrsz"
    and walk: "dyn_loop m (ptr_add ehdr dyn_off) (unat dyn_size div sizeof_Dyn) 0 None = Inr (i, r)"
  shows "i \<le> unat dyn_size div sizeof_Dyn \<and>
         (\<forall>j<i. \<exists>t. d_tag m (ent (ptr_add ehdr dyn_off) j) = Inr t \<and> t \<noteq> DT_NULL) \<and>
         (i < unat dyn_size div sizeof_Dyn \<longrightarrow> d_tag m (ent (ptr_add ehdr dyn_off) i) = Inr DT_NULL) \<and>
         (r = None \<longrightarrow>
            (\<forall>j<i. d_tag m (ent (ptr_add ehdr dyn_off) j) \<noteq> Inr DT_RPATH) \<and>
            set_rpath m new = Failed (Fatal 2 No_DT_RPATH_tag) m) \<and>
         (\<forall>dt. r = Some dt \<longrightarrow>
            (\<exists>j<i. dt = ent (ptr_add ehdr dyn_off) j \<and> d_tag m dt = Inr DT_RPATH \<and>
                   (\<forall>k. j < k \<and> k < i \<longrightarrow> d_tag m (ent (ptr_add ehdr dyn_off) k) \<noteq> Inr DT_RPATH)) \<and>
            set_rpath m new =
              (case d_val m dt of Inl e \<Rightarrow> Failed e m | Inr v \<Rightarrow>
               if v > dynstrsz then Failed (Fatal 2 RPATH_outside_strtab) m else
               case strlen m (ptr_add (ptr_add ehdr dynstr_off) v) of Inl e \<Rightarrow> Failed e m | Inr n \<Rightarrow>
               if length new > n then Failed (Fatal 2 RPATH_too_small) m else
               case strcpy m (ptr_add (ptr_add ehdr dynstr_off) v) new of
                 Inl e \<Rightarrow> Failed e m
               | Inr m' \<Rightarrow> Patched m'))"
proof -
  let ?tab = "ptr_add ehdr dyn_off"
  let ?n = "unat dyn_size div sizeof_Dyn"
  from dyn_loop_walk [OF walk]
  have w: "i \<le> ?n"
    "\<forall>j. 0 \<le> j \<and> j < i \<longrightarrow> (\<exists>t. d_tag m (ent ?tab j) = Inr t \<and> t \<noteq> DT_NULL)"
    "i < ?n \<longrightarrow> d_tag m (ent ?tab i) = Inr DT_NULL"
    "(r = None \<and> (\<forall>j. 0 \<le> j \<and> j < i \<longrightarrow> d_tag m (ent ?tab j) \<noteq> Inr DT_RPATH)) \<or>
      (\<exists>j. 0 \<le> j \<and> j < i \<and> r = Some (ent ?tab j) \<and> d_tag m (ent ?tab j) = Inr DT_RPATH \<and>
           (\<forall>k. j < k \<and> k < i \<longrightarrow> d_tag m (ent ?tab k) \<noteq> Inr DT_RPATH))"
    by simp_all
  have none: "set_rpath m new = Failed (Fatal 2 No_DT_RPATH_tag) m" if "r = None"
    using that walk by (simp add: set_rpath_def dyn dyn_off dyn_size dynstr dynstr_off dynstrsz)
  have some: "set_rpath m new =
              (case d_val m dt of Inl e \<Rightarrow> Failed e m | Inr v \<Rightarrow>
               if v > dynstrsz then Failed (Fatal 2 RPATH_outside_strtab) m else
               case strlen m (ptr_add (ptr_add ehdr dynstr_off) v) of Inl e \<Rightarrow> Failed e m | Inr n \<Rightarrow>
               if length new > n then Failed (Fatal 2 RPATH_too_small) m else
               case strcpy m (ptr_add (ptr_add ehdr dynstr_off) v) new of
                 Inl e \<Rightarrow> Failed e m
               | Inr m' \<Rightarrow> Patched m')" if "r = Some dt" for dt
    using that walk
    by (cases "d_val m dt")
      (simp_all add: set_rpath_def dyn dyn_off dyn_size dynstr dynstr_off dynstrsz Let_def)
  show ?thesis
  proof (intro conjI allI impI)
    show "i \<le> ?n" by (rule w(1))
    show "\<exists>t. d_tag m (ent ?tab j) = Inr t \<and> t \<noteq> DT_NULL" if "j < i" for j
      using w(2) that by simp
    show "d_tag m (ent ?tab i) = Inr DT_NULL" if "i < ?n" using w(3) that by simp
    show "d_tag m (ent ?tab j) \<noteq> Inr DT_RPATH" if "r = None" "j < i" for j
      using w(4) that by auto
    show "set_rpath m new = Failed (Fatal 2 No_DT_RPATH_tag) m" if "r = None"
      using that by (rule none)
    show "\<exists>j<i. dt = ent ?tab j \<and> d_tag m dt = Inr DT_RPATH \<and>
                   (\<forall>k. j < k \<and> k < i \<longrightarrow> d_tag m (ent ?tab k) \<noteq> Inr DT_RPATH)"
      if "r = Some dt" for dt
      using w(4) that by auto
    show "set_rpath m new =
              (case d_val m dt of Inl e \<Rightarrow> Failed e m | Inr v \<Rightarrow>
               if v > dynstrsz then Failed (Fatal 2 RPATH_outside_strtab) m else
               case strlen m (ptr_add (ptr_add ehdr dynstr_off) v) of Inl e \<Rightarrow> Failed e m | Inr n \<Rightarrow>
               if length new > n then Failed (Fatal 2 RPATH_too_small) m else
               case strcpy m (ptr_add (ptr_add ehdr dynstr_off) v) new of
                 Inl e \<Rightarrow> Failed e m
               | Inr m' \<Rightarrow> Patched m')" if "r = Some dt" for dt
      using that by (rule some)
  qed
qed

theorem set_rpath_walk_witness:
  "elf_get_section_by_name two_rpath_img dot_dynamic = Inr (Some 256) \<and>
   sh_offset two_rpath_img 256 = Inr 448 \<and> sh_size two_rpath_img 256 = Inr 80 \<and>
   elf_get_section_by_name two_rpath_img dot_dynstr = Inr (Some 320) \<and>
   sh_offset two_rpath_img 320 = Inr 168 \<and> sh_size two_rpath_img 320 = Inr 15 \<and>
   dyn_loop two_rpath_img 448 5 0 None = Inr (3, Some 480) \<and>
   d_tag two_rpath_img 480 = Inr DT_RPATH \<and> d_tag two_rpath_img 496 = Inr DT_NULL \<and>
   set_rpath two_rpath_img (map of_char ''/t'') =
     Patched (sample_target 8 target_interp
               (0 # map of_char ''/t'' @ 0 # map of_char ''c'' @ 0 # map of_char ''XXXXXXXX'' @ [0]) 15
               [(1, 1), (15, 6), (15, 1), (0, 0), (15, 11)])"
proof -
  have w: "dyn_loop two_rpath_img (ptr_add ehdr 448) (unat (80 :: 64 word) div sizeof_Dyn) 0 None =
           Inr (3, Some 480)"
    using two_rpath_walk by (simp add: ptr_add_ehdr sizeof_Dyn_def)
  note T = set_rpath_walk [OF two_rpath_sections w, of "[]"]
  from T have "d_tag two_rpath_img 480 = Inr DT_RPATH" by blast
  moreover from T have "d_tag two_rpath_img (ent (ptr_add ehdr 448) 3) = Inr DT_NULL"
    by (simp add: sizeof_Dyn_def)
  then have "d_tag two_rpath_img 496 = Inr DT_NULL"
    by (simp add: ptr_add_def ehdr_def sizeof_Dyn_def)
  ultimately show ?thesis using two_rpath_sections two_rpath_walk two_rpath_set by simp
qed

subsection \<open>The bound of the \<^verbatim>\<open>DT_RPATH\<close> value\<close>

text \<open>
  C5. \<^verbatim>\<open>set_rpath\<close> rejects a \<^verbatim>\<open>DT_RPATH\<close> value only when it is greater than the size of
  \<^verbatim>\<open>.dynstr\<close>. In the image below the table has 6 bytes and the value is 6, the offset
  of the first byte after the table: \<^verbatim>\<open>set_rpath\<close> does not fail, it takes the bytes
  after the table for the current path and overwrites them.
\<close>

theorem set_rpath_accepts_offset_at_end:
  "elf_get_section_by_name short_dynstr_img dot_dynstr = Inr (Some 320) \<and>
   sh_size short_dynstr_img 320 = Inr 6 \<and> d_val short_dynstr_img 464 = Inr 6 \<and>
   set_rpath short_dynstr_img (map of_char ''/t'') = Patched short_dynstr_img_patched \<and>
   short_dynstr_img_patched \<noteq> short_dynstr_img"
  using short_dynstr_facts short_dynstr_set short_dynstr_changed by simp

subsection \<open>The lookups and the length of the buffer\<close>

lemma load_bytes_Fault: "load_bytes m a n = Inl e \<Longrightarrow> e = Fault"
  by (simp add: load_bytes_def split: if_splits)

lemma load8_Fault: "load8 m a = Inl e \<Longrightarrow> e = Fault"
  by (simp add: load8_def split: if_splits)

lemma load16_Fault: "load16 m a = Inl e \<Longrightarrow> e = Fault"
  by (auto simp: load16_def split: sum.splits dest: load_bytes_Fault)

lemma load32_Fault: "load32 m a = Inl e \<Longrightarrow> e = Fault"
  by (auto simp: load32_def split: sum.splits dest: load_bytes_Fault)

lemma load64_Fault: "load64 m a = Inl e \<Longrightarrow> e = Fault"
  by (auto simp: load64_def split: sum.splits dest: load_bytes_Fault)

lemma streq_bytes_Fault: "streq_bytes bs name = Inl e \<Longrightarrow> e = Fault"
  by (induction bs name rule: streq_bytes.induct) (auto split: if_splits)

lemma phdr_loop_Fault: "phdr_loop m tab t n i = Inl e \<Longrightarrow> e = Fault"
proof (induction m tab t n i rule: phdr_loop.induct)
  case (1 m tab t n i)
  show ?case
  proof (cases "i < n")
    case False
    with "1.prems" show ?thesis by (simp add: phdr_loop.simps [of m tab t n i])
  next
    case True
    show ?thesis
    proof (cases "p_type m (ptr_add tab (of_nat (i * sizeof_Phdr)))")
      case (Inl e')
      with "1.prems" True have "e = e'" by (simp add: phdr_loop.simps [of m tab t n i] Let_def)
      with Inl show ?thesis by (simp add: p_type_def load32_Fault)
    next
      case (Inr ty)
      show ?thesis
      proof (cases "ty = t")
        case True
        with "1.prems" \<open>i < n\<close> Inr show ?thesis
          by (simp add: phdr_loop.simps [of m tab t n i] Let_def)
      next
        case False
        with "1.prems" \<open>i < n\<close> Inr have "phdr_loop m tab t n (Suc i) = Inl e"
          by (simp add: phdr_loop.simps [of m tab t n i] Let_def)
        with "1.IH" [OF \<open>i < n\<close> refl Inr False] show ?thesis by simp
      qed
    qed
  qed
qed

lemma shdr_loop_Fault: "shdr_loop m tab strtab nm ty n i = Inl e \<Longrightarrow> e = Fault"
proof (induction m tab strtab nm ty n i rule: shdr_loop.induct)
  case (1 m tab strtab nm ty n i)
  let ?sh = "ptr_add tab (of_nat (i * sizeof_Shdr))"
  show ?case
  proof (cases "i < n")
    case False
    with "1.prems" show ?thesis by (simp add: shdr_loop.simps [of m tab strtab nm ty n i])
  next
    case True
    note unf = shdr_loop.simps [of m tab strtab nm ty n i]
    show ?thesis
    proof (cases "sh_name m ?sh")
      case (Inl e')
      with "1.prems" True have "e = e'" by (simp add: unf Let_def del: of_nat_mult)
      with Inl show ?thesis by (simp add: sh_name_def load32_Fault)
    next
      case (Inr off)
      let ?byname = "case nm of None \<Rightarrow> Inr False | Some name \<Rightarrow> streq m (ptr_add strtab (ucast off)) name"
      show ?thesis
      proof (cases ?byname)
        case (Inl e')
        with "1.prems" True Inr have "e = e'" by (simp add: unf Let_def del: of_nat_mult)
        with Inl show ?thesis
          by (auto simp: streq_def split: option.splits dest: streq_bytes_Fault)
      next
        case bn: (Inr hit)
        show ?thesis
        proof (cases hit)
          case True
          with "1.prems" \<open>i < n\<close> Inr bn show ?thesis by (simp add: unf Let_def del: of_nat_mult)
        next
          case nohit: False
          let ?bytype = "if ty \<noteq> SHT_NOT_USED
                    then (case sh_type m ?sh of Inl e \<Rightarrow> Inl e | Inr t \<Rightarrow> Inr (t = ty))
                    else Inr False"
          show ?thesis
          proof (cases ?bytype)
            case (Inl e')
            with "1.prems" True Inr bn nohit have "e = e'" by (simp add: unf Let_def del: of_nat_mult)
            with Inl show ?thesis
              by (auto simp: sh_type_def split: if_splits sum.splits dest: load32_Fault)
          next
            case bt: (Inr hit2)
            show ?thesis
            proof (cases hit2)
              case True
              with "1.prems" \<open>i < n\<close> Inr bn nohit bt show ?thesis by (simp add: unf Let_def del: of_nat_mult)
            next
              case False
              with "1.prems" \<open>i < n\<close> Inr bn nohit bt
              have "shdr_loop m tab strtab nm ty n (Suc i) = Inl e" by (simp add: unf Let_def del: of_nat_mult)
              with "1.IH" [OF \<open>i < n\<close> refl Inr refl] bn nohit bt False show ?thesis
                by simp
            qed
          qed
        qed
      qed
    qed
  qed
qed


lemma elf_get_proghdr_by_type_Fatal:
  assumes "elf_get_proghdr_by_type m t = Inl (Fatal n msg)"
  shows "n = 2 \<and> msg = ELF_disagrees_with_program_header_size \<and>
         (\<exists>s. e_phentsize m = Inr s \<and> unat s \<noteq> sizeof_Phdr)"
proof (cases "e_phoff m")
  case (Inl e)
  with assms show ?thesis by (auto simp: elf_get_proghdr_by_type_def e_phoff_def dest: load64_Fault)
next
  case phoff: (Inr phoff)
  show ?thesis
  proof (cases "e_phentsize m")
    case (Inl e)
    with assms phoff show ?thesis
      by (auto simp: elf_get_proghdr_by_type_def e_phentsize_def dest: load16_Fault)
  next
    case sz: (Inr s)
    show ?thesis
    proof (cases "unat s = sizeof_Phdr")
      case False
      with assms phoff sz show ?thesis by (simp add: elf_get_proghdr_by_type_def)
    next
      case True
      show ?thesis
      proof (cases "e_phnum m")
        case (Inl e)
        with assms phoff sz True show ?thesis
          by (auto simp: elf_get_proghdr_by_type_def e_phnum_def dest: load16_Fault)
      next
        case (Inr k)
        with assms phoff sz True show ?thesis
          by (auto simp: elf_get_proghdr_by_type_def dest: phdr_loop_Fault)
      qed
    qed
  qed
qed

lemma elf_get_section_Fatal:
  assumes "elf_get_section m nm ty = Inl (Fatal n msg)"
  shows "n = 2 \<and> msg = ELF_disagrees_with_section_size \<and>
         (\<exists>s. e_shentsize m = Inr s \<and> unat s \<noteq> sizeof_Shdr)"
proof (cases "e_shoff m")
  case (Inl e)
  with assms show ?thesis by (auto simp: elf_get_section_def e_shoff_def dest: load64_Fault)
next
  case shoff: (Inr shoff)
  show ?thesis
  proof (cases "e_shstrndx m")
    case (Inl e)
    with assms shoff show ?thesis
      by (auto simp: elf_get_section_def e_shstrndx_def dest: load16_Fault)
  next
    case ndx: (Inr ndx)
    show ?thesis
    proof (cases "sh_offset m (ptr_add (ptr_add ehdr shoff) (of_nat (unat ndx * sizeof_Shdr)))")
      case (Inl e)
      with assms shoff ndx show ?thesis
        by (auto simp: elf_get_section_def sh_offset_def simp del: of_nat_mult dest: load64_Fault)
    next
      case so: (Inr so)
      show ?thesis
      proof (cases "e_shentsize m")
        case (Inl e)
        with assms shoff ndx so show ?thesis
          by (auto simp: elf_get_section_def e_shentsize_def simp del: of_nat_mult dest: load16_Fault)
      next
        case sz: (Inr s)
        show ?thesis
        proof (cases "unat s = sizeof_Shdr")
          case False
          with assms shoff ndx so sz show ?thesis
            by (simp add: elf_get_section_def del: of_nat_mult)
        next
          case True
          show ?thesis
          proof (cases "e_shnum m")
            case (Inl e)
            with assms shoff ndx so sz True show ?thesis
              by (auto simp: elf_get_section_def e_shnum_def simp del: of_nat_mult dest: load16_Fault)
          next
            case (Inr k)
            with assms shoff ndx so sz True show ?thesis
              by (auto simp: elf_get_section_def simp del: of_nat_mult dest: shdr_loop_Fault)
          qed
        qed
      qed
    qed
  qed
qed

lemma unat_entry:
  fixes tab :: "64 word"
  assumes "unat tab + k \<le> n" and "n < 2 ^ 64"
  shows "unat (ptr_add tab (of_nat k)) = unat tab + k"
proof -
  from assms have k: "k < 2 ^ LENGTH(64)" by simp
  then have "unat (of_nat k :: 64 word) = k" by (simp add: unat_of_nat)
  moreover from this assms have "unat tab + unat (of_nat k :: 64 word) < 2 ^ LENGTH(64)" by simp
  ultimately show ?thesis using unat_add_lem [of tab "of_nat k"] by (simp add: ptr_add_def)
qed

lemma phdr_loop_in_range:
  assumes "unat tab + n * sizeof_Phdr \<le> length m" and "length m < 2 ^ 64"
  shows "\<exists>r. phdr_loop m tab t n i = Inr r"
proof (induction "n - i" arbitrary: i)
  case 0
  then show ?case by (simp add: phdr_loop.simps [of m tab t n i])
next
  case (Suc k)
  then have lt: "i < n" by simp
  then have "Suc i * sizeof_Phdr \<le> n * sizeof_Phdr" by (intro mult_le_mono1) simp
  with assms(1) have b: "unat tab + i * sizeof_Phdr + 56 \<le> length m" by (simp add: sizeof_Phdr_def)
  then have "unat (ptr_add tab (of_nat (i * sizeof_Phdr))) = unat tab + i * sizeof_Phdr"
    using unat_entry [of tab "i * sizeof_Phdr" "length m"] assms(2) by simp
  with b obtain ty where ty: "p_type m (ptr_add tab (of_nat (i * sizeof_Phdr))) = Inr ty"
    by (simp add: p_type_def load32_def load_bytes_def del: of_nat_mult)
  from Suc have "k = n - Suc i" by simp
  from Suc.hyps(1) [OF this] obtain r where "phdr_loop m tab t n (Suc i) = Inr r" by blast
  with lt ty show ?case by (simp add: phdr_loop.simps [of m tab t n i] Let_def del: of_nat_mult)
qed

text \<open>
  C4, as stated, fails. The file of 64 bytes that is a valid ELF header with both
  table offsets at 4096 is not rejected: both lookups dereference the offset, an
  access outside the buffer.
\<close>

theorem lookups_fault_out_of_range:
  "length header_only_img = 64 \<and> elf_is_valid header_only_img = Inr True \<and>
   e_phoff header_only_img = Inr 4096 \<and> e_shoff header_only_img = Inr 4096 \<and>
   elf_get_proghdr_by_type header_only_img PT_INTERP = Inl Fault \<and>
   elf_get_section_by_name header_only_img dot_dynamic = Inl Fault"
  using header_only_facts header_only_lookups by simp

text \<open>
  C4, amended. The lookups do not compare any offset or count of the image with the
  length of the buffer. The only fatal errors they raise are the two entry size
  checks. A program header table that lies inside the buffer is walked without a
  fault; a table offset outside the buffer is dereferenced all the same, and the
  result is an access outside the buffer, not a fatal error. \<^verbatim>\<open>elf_get_section\<close> reads the
  header of the section name table before its entry size check.
\<close>

theorem elf_lookups_unvalidated:
  "(\<forall>n msg. elf_get_proghdr_by_type m t = Inl (Fatal n msg) \<longrightarrow>
      n = 2 \<and> msg = ELF_disagrees_with_program_header_size \<and>
      (\<exists>s. e_phentsize m = Inr s \<and> unat s \<noteq> sizeof_Phdr)) \<and>
   (\<forall>n msg. elf_get_section m nm ty = Inl (Fatal n msg) \<longrightarrow>
      n = 2 \<and> msg = ELF_disagrees_with_section_size \<and>
      (\<exists>s. e_shentsize m = Inr s \<and> unat s \<noteq> sizeof_Shdr)) \<and>
   (\<forall>phoff phnum. e_phoff m = Inr phoff \<and> e_phentsize m = Inr 56 \<and> e_phnum m = Inr phnum \<and>
      unat phoff + unat phnum * sizeof_Phdr \<le> length m \<and> length m < 2 ^ 64 \<longrightarrow>
      (\<exists>r. elf_get_proghdr_by_type m t = Inr r)) \<and>
   (\<forall>phoff phnum. e_phoff m = Inr phoff \<and> e_phentsize m = Inr 56 \<and> e_phnum m = Inr phnum \<and>
      phnum \<noteq> 0 \<and> length m < unat phoff + 4 \<longrightarrow>
      elf_get_proghdr_by_type m t = Inl Fault) \<and>
   (\<forall>shoff ndx. e_shoff m = Inr shoff \<and> e_shstrndx m = Inr ndx \<and>
      length m < unat (shoff + of_nat (unat ndx * sizeof_Shdr) + 24) + 8 \<longrightarrow>
      elf_get_section m nm ty = Inl Fault)"
proof (intro conjI allI impI)
  fix n msg
  assume "elf_get_proghdr_by_type m t = Inl (Fatal n msg)"
  from elf_get_proghdr_by_type_Fatal [OF this]
  show "n = 2" "msg = ELF_disagrees_with_program_header_size"
    "\<exists>s. e_phentsize m = Inr s \<and> unat s \<noteq> sizeof_Phdr" by simp_all
next
  fix n msg
  assume "elf_get_section m nm ty = Inl (Fatal n msg)"
  from elf_get_section_Fatal [OF this]
  show "n = 2" "msg = ELF_disagrees_with_section_size"
    "\<exists>s. e_shentsize m = Inr s \<and> unat s \<noteq> sizeof_Shdr" by simp_all
next
  fix phoff phnum
  assume a: "e_phoff m = Inr phoff \<and> e_phentsize m = Inr 56 \<and> e_phnum m = Inr phnum \<and>
      unat phoff + unat phnum * sizeof_Phdr \<le> length m \<and> length m < 2 ^ 64"
  then have "\<exists>r. phdr_loop m phoff t (unat phnum) 0 = Inr r"
    by (intro phdr_loop_in_range) simp_all
  with a show "\<exists>r. elf_get_proghdr_by_type m t = Inr r"
    by (simp add: elf_get_proghdr_by_type_def ptr_add_ehdr sizeof_Phdr_def)
next
  fix phoff phnum
  assume a: "e_phoff m = Inr phoff \<and> e_phentsize m = Inr 56 \<and> e_phnum m = Inr phnum \<and>
      phnum \<noteq> 0 \<and> length m < unat phoff + 4"
  then have "0 < unat phnum" by (simp add: unat_gt_0)
  moreover from a have "p_type m phoff = Inl Fault"
    by (simp add: p_type_def load32_def load_bytes_def)
  ultimately have "phdr_loop m phoff t (unat phnum) 0 = Inl Fault"
    by (simp add: phdr_loop.simps [of m phoff t "unat phnum" 0] ptr_add_def)
  with a show "elf_get_proghdr_by_type m t = Inl Fault"
    by (simp add: elf_get_proghdr_by_type_def ptr_add_ehdr sizeof_Phdr_def)
next
  fix shoff ndx
  assume a: "e_shoff m = Inr shoff \<and> e_shstrndx m = Inr ndx \<and>
      length m < unat (shoff + of_nat (unat ndx * sizeof_Shdr) + 24) + 8"
  then have "sh_offset m (ptr_add (ptr_add ehdr shoff) (of_nat (unat ndx * sizeof_Shdr))) = Inl Fault"
    by (simp add: sh_offset_def load64_def load_bytes_def ptr_add_def ehdr_def del: of_nat_mult)
  with a show "elf_get_section m nm ty = Inl Fault"
    by (simp add: elf_get_section_def del: of_nat_mult)
qed

theorem elf_lookups_unvalidated_witness:
  "e_phoff header_only_img = Inr 4096 \<and> e_phentsize header_only_img = Inr 56 \<and>
   e_phnum header_only_img = Inr 1 \<and> length header_only_img = 64 \<and>
   elf_get_proghdr_by_type header_only_img PT_INTERP = Inl Fault \<and>
   e_phoff target_img = Inr 64 \<and> e_phentsize target_img = Inr 56 \<and>
   e_phnum target_img = Inr 1 \<and> length target_img = 496 \<and>
   (\<exists>r. elf_get_proghdr_by_type target_img PT_INTERP = Inr r)"
proof -
  note H = elf_lookups_unvalidated [of header_only_img PT_INTERP None 0]
  note T = elf_lookups_unvalidated [of target_img PT_INTERP None 0]
  from H header_only_facts have "elf_get_proghdr_by_type header_only_img PT_INTERP = Inl Fault"
    by simp
  moreover from T target_header target_length
  have "\<exists>r. elf_get_proghdr_by_type target_img PT_INTERP = Inr r"
    by (simp add: sizeof_Phdr_def)
  ultimately show ?thesis using header_only_facts target_header target_length by simp
qed

subsection \<open>\<^verbatim>\<open>patch_prog_paths\<close>\<close>

text \<open>
  C1, as stated, fails. On the sample target the string \<^verbatim>\<open>/t/i\<close> fits the interpreter
  field of 8 bytes and the path \<^verbatim>\<open>/tmp/staticx-abcdef\<close> does not fit the placeholder of
  8 bytes: \<^verbatim>\<open>patch_prog_paths\<close> fails in \<^verbatim>\<open>set_rpath\<close>, and the buffer it leaves has the new
  interpreter string in it.
\<close>

theorem patch_prog_paths_half_patched:
  "elf_is_valid target_img = Inr True \<and>
   set_interp target_img (map of_char ''/t/i'') = Patched target_img_interp_set \<and>
   patch_prog_paths target_img (map of_char ''/t/i'') (map of_char ''/tmp/staticx-abcdef'') =
     Failed (Fatal 2 RPATH_too_small) target_img_interp_set \<and>
   target_img_interp_set \<noteq> target_img"
  using target_valid target_set_interp target_patch_long target_changed by simp

text \<open>
  C1, amended. When \<^verbatim>\<open>patch_prog_paths\<close> fails fatally, the buffer is either untouched,
  or it is the buffer \<^verbatim>\<open>set_interp\<close> has patched and it is \<^verbatim>\<open>set_rpath\<close> that failed, without
  writing anything itself. So on a valid image an interpreter string that does not fit leaves
  the target unmodified, and a library path that does not fit, after an interpreter
  string that does, leaves the target with the new interpreter written.
\<close>

theorem patch_prog_paths_failure:
  "(\<forall>n msg m'. patch_prog_paths m new_interp new_rpath = Failed (Fatal n msg) m' \<longrightarrow>
      m' = m \<or>
      (set_interp m new_interp = Patched m' \<and> set_rpath m' new_rpath = Failed (Fatal n msg) m')) \<and>
   (elf_is_valid m = Inr True \<and> set_interp m new_interp = Failed (Fatal 2 INTERP_too_small) m \<longrightarrow>
      patch_prog_paths m new_interp new_rpath = Failed (Fatal 2 INTERP_too_small) m) \<and>
   (\<forall>m1 m2. elf_is_valid m = Inr True \<and> set_interp m new_interp = Patched m1 \<and>
      set_rpath m1 new_rpath = Failed (Fatal 2 RPATH_too_small) m2 \<longrightarrow>
      m2 = m1 \<and> patch_prog_paths m new_interp new_rpath = Failed (Fatal 2 RPATH_too_small) m1)"
proof (intro conjI allI impI)
  fix n msg m'
  assume a: "patch_prog_paths m new_interp new_rpath = Failed (Fatal n msg) m'"
  show "m' = m \<or>
      (set_interp m new_interp = Patched m' \<and> set_rpath m' new_rpath = Failed (Fatal n msg) m')"
  proof (cases "elf_is_valid m")
    case (Inl x)
    with a show ?thesis by (simp add: patch_prog_paths_def)
  next
    case (Inr v)
    show ?thesis
    proof (cases v)
      case False
      with a Inr show ?thesis by (simp add: patch_prog_paths_def)
    next
      case True
      show ?thesis
      proof (cases "set_interp m new_interp")
        case (Failed e1 m1)
        then have "m1 = m" by (rule set_interp_Failed_same)
        with a Inr True Failed show ?thesis by (simp add: patch_prog_paths_def)
      next
        case (Patched m1)
        with a Inr True have r: "set_rpath m1 new_rpath = Failed (Fatal n msg) m'"
          by (simp add: patch_prog_paths_def)
        then have "m' = m1" by (rule set_rpath_Failed_same)
        with r Patched show ?thesis by simp
      qed
    qed
  qed
next
  assume "elf_is_valid m = Inr True \<and> set_interp m new_interp = Failed (Fatal 2 INTERP_too_small) m"
  then show "patch_prog_paths m new_interp new_rpath = Failed (Fatal 2 INTERP_too_small) m"
    by (simp add: patch_prog_paths_def)
next
  fix m1 m2
  assume a: "elf_is_valid m = Inr True \<and> set_interp m new_interp = Patched m1 \<and>
      set_rpath m1 new_rpath = Failed (Fatal 2 RPATH_too_small) m2"
  then show "m2 = m1" using set_rpath_Failed_same by blast
  with a show "patch_prog_paths m new_interp new_rpath = Failed (Fatal 2 RPATH_too_small) m1"
    by (simp add: patch_prog_paths_def)
qed

theorem patch_prog_paths_failure_witness:
  "elf_is_valid target_img = Inr True \<and>
   set_interp target_img (map of_char ''/t/i'') = Patched target_img_interp_set \<and>
   set_rpath target_img_interp_set (map of_char ''/tmp/staticx-abcdef'') =
     Failed (Fatal 2 RPATH_too_small) target_img_interp_set \<and>
   patch_prog_paths target_img (map of_char ''/t/i'') (map of_char ''/tmp/staticx-abcdef'') =
     Failed (Fatal 2 RPATH_too_small) target_img_interp_set \<and>
   set_interp target_img (map of_char ''/tmp/staticx-abcdef/.staticx.interp'') =
     Failed (Fatal 2 INTERP_too_small) target_img \<and>
   patch_prog_paths target_img (map of_char ''/tmp/staticx-abcdef/.staticx.interp'')
       (map of_char ''/tmp/staticx-abcdef'') =
     Failed (Fatal 2 INTERP_too_small) target_img"
  using patch_prog_paths_failure [of target_img "map of_char ''/t/i''"
      "map of_char ''/tmp/staticx-abcdef''"]
    patch_prog_paths_failure [of target_img "map of_char ''/tmp/staticx-abcdef/.staticx.interp''"
      "map of_char ''/tmp/staticx-abcdef''"]
    target_valid target_set_interp target_set_rpath_long target_set_interp_long
  by simp


end
